theory Spec2Isabelle
  imports Complex_Main
begin

section \<open>JavaScript errors\<close>

text \<open>
  A thrown JavaScript exception is a value: \<open>Error msg\<close> is \<open>new Error(msg)\<close>,
  \<open>TypeError\<close> is the runtime's error on a property read of \<open>null\<close> or a call of a
  non-function, and \<open>StorageFailure\<close> is a rejected promise of the Firestore collaborator.
  A function that can throw returns \<open>js_error + 'a\<close> with \<open>Inl\<close> for the exception.
\<close>

datatype js_error = Error string | TypeError | StorageFailure

section \<open>Applications module (applications.js)\<close>

subsection \<open>Documents and collaborators\<close>

text \<open>
  One entry of \<open>statusHistory\<close>: \<open>{status, timestamp, updatedBy, comments}\<close>. The server
  timestamp sentinel is modelled by the time the server assigns, a natural number.
\<close>

record history_entry =
  entry_status :: string
  entry_timestamp :: nat
  entry_updatedBy :: string
  entry_comments :: string

text \<open>
  The fields of an application document that \<open>updateApplicationStatus\<close> and
  \<open>cancelApplication\<close> read or write. \<open>statusHistory\<close> can be absent from a document
  (the code reads \<open>currentData.statusHistory || []\<close>), as can the fields that only an update
  writes.
\<close>

record application =
  userId :: string
  serviceName :: string
  status :: string
  statusHistory :: "history_entry list option"
  updatedAt :: "nat option"
  lastUpdatedBy :: "string option"
  completedAt :: "nat option"

text \<open>The document that \<open>createNotification\<close> adds to the \<open>notifications\<close> collection.\<close>

record notification =
  notif_userId :: string
  notif_type :: string
  notif_title :: string
  notif_message :: string
  notif_applicationId :: string
  notif_newStatus :: string
  notif_comments :: string
  notif_isRead :: bool
  notif_createdAt :: nat

text \<open>The two collections the module touches.\<close>

record firestore =
  applications :: "string \<rightharpoonup> application"
  notifications :: "notification list"

text \<open>
  What the module's collaborators answer during one call: the signed-in principal
  (\<open>this.auth.currentUser\<close>, \<open>None\<close> for \<open>null\<close>), the server's clock, and whether a
  document read, a document update or a document add is rejected by the store.
\<close>

record env =
  currentUser :: "string option"
  serverTimestamp :: nat
  get_fails :: bool
  update_fails :: bool
  add_fails :: bool

subsection \<open>createNotification\<close>

text \<open>
  \<open>createNotification(userId, notificationData)\<close> adds
  \<open>{userId, ...notificationData, isRead: false, createdAt}\<close>; a rejected add is caught and
  only logged, so the function never throws.
\<close>

definition createNotification ::
  "env \<Rightarrow> firestore \<Rightarrow> string \<Rightarrow> string \<Rightarrow> string \<Rightarrow> string \<Rightarrow> string \<Rightarrow> string \<Rightarrow> string \<Rightarrow> firestore"
where
  "createNotification e d uid ntype title message applicationId newStatus comments =
     (if add_fails e then d
      else d\<lparr>notifications := notifications d @
        [\<lparr>notif_userId = uid, notif_type = ntype, notif_title = title,
          notif_message = message, notif_applicationId = applicationId,
          notif_newStatus = newStatus, notif_comments = comments,
          notif_isRead = False, notif_createdAt = serverTimestamp e\<rparr>]\<rparr>)"

subsection \<open>updateApplicationStatus\<close>

text \<open>\<open>currentData.statusHistory || []\<close>: an absent history reads as the empty one.\<close>

definition history_or_empty :: "application \<Rightarrow> history_entry list" where
  "history_or_empty currentData =
     (case statusHistory currentData of None \<Rightarrow> [] | Some h \<Rightarrow> h)"

definition validStatuses :: "string list" where
  "validStatuses = [''pending'', ''under_review'', ''approved'', ''rejected'', ''completed'']"

text \<open>\<open>comments || `Status changed to ${newStatus}`\<close>: the empty string is falsy.\<close>

definition comments_or_default :: "string \<Rightarrow> string \<Rightarrow> string" where
  "comments_or_default comments dflt = (if comments = [] then dflt else comments)"

text \<open>
  The document after \<open>applicationRef.update(updateData)\<close>: an update merges the fields of
  \<open>updateData\<close> into the stored document, and \<open>completedAt\<close> is among them only for
  \<open>approved\<close> and \<open>completed\<close>.
\<close>

definition updated_application ::
  "application \<Rightarrow> string \<Rightarrow> string \<Rightarrow> nat \<Rightarrow> history_entry list \<Rightarrow> application"
where
  "updated_application currentData newStatus uid now history =
     currentData\<lparr>status := newStatus, updatedAt := Some now, lastUpdatedBy := Some uid,
       statusHistory := Some history,
       completedAt := (if newStatus = ''approved'' \<or> newStatus = ''completed''
                       then Some now else completedAt currentData)\<rparr>"

text \<open>
  The body of \<open>updateApplicationStatus(applicationId, newStatus, comments)\<close>, in the order of
  the source: the status check, the read, the existence check, the history entry (reading
  \<open>this.auth.currentUser.uid\<close>, a TypeError without a principal), the update, and the
  notification. The \<open>catch\<close> block logs and rethrows, so the error is the result. The calls
  of the logger are not part of this state.
\<close>

definition updateApplicationStatus ::
  "env \<Rightarrow> firestore \<Rightarrow> string \<Rightarrow> string \<Rightarrow> string \<Rightarrow> js_error + firestore"
where
  "updateApplicationStatus e d applicationId newStatus comments =
     (if newStatus \<notin> set validStatuses then Inl (Error ''Invalid status'')
      else if get_fails e then Inl StorageFailure
      else case applications d applicationId of
        None \<Rightarrow> Inl (Error ''Application not found'')
      | Some currentData \<Rightarrow>
          (case currentUser e of
            None \<Rightarrow> Inl TypeError
          | Some uid \<Rightarrow>
              let history =
                    history_or_empty currentData @
                    [\<lparr>entry_status = newStatus, entry_timestamp = serverTimestamp e,
                      entry_updatedBy = uid,
                      entry_comments =
                        comments_or_default comments (''Status changed to '' @ newStatus)\<rparr>]
              in if update_fails e then Inl StorageFailure
                 else Inr (createNotification e
                   (d\<lparr>applications := (applications d)(applicationId \<mapsto>
                        updated_application currentData newStatus uid (serverTimestamp e) history)\<rparr>)
                   (userId currentData) ''status_update'' ''Application Status Updated''
                   (''Your application for '' @ serviceName currentData @ '' has been '' @ newStatus)
                   applicationId newStatus comments)))"

subsection \<open>cancelApplication\<close>

text \<open>
  \<open>cancelApplication(applicationId, reason)\<close>: the read, the existence check, the ownership
  check, the stage check, then \<open>updateApplicationStatus(applicationId, 'cancelled', reason ||
  'Cancelled by user')\<close>.
\<close>

definition cancelApplication ::
  "env \<Rightarrow> firestore \<Rightarrow> string \<Rightarrow> string \<Rightarrow> js_error + firestore"
where
  "cancelApplication e d applicationId reason =
     (if get_fails e then Inl StorageFailure
      else case applications d applicationId of
        None \<Rightarrow> Inl (Error ''Application not found'')
      | Some applicationData \<Rightarrow>
          (case currentUser e of
            None \<Rightarrow> Inl TypeError
          | Some uid \<Rightarrow>
              if userId applicationData \<noteq> uid
              then Inl (Error ''Unauthorized to cancel this application'')
              else if status applicationData \<noteq> ''pending''
              then Inl (Error ''Application cannot be cancelled at this stage'')
              else updateApplicationStatus e d applicationId ''cancelled''
                     (comments_or_default reason ''Cancelled by user'')))"

subsection \<open>A sample store\<close>

text \<open>
  A pending application \<open>a1\<close> of user \<open>u1\<close> as \<open>submitApplication\<close> writes it, a store
  holding it, and collaborators that answer every call, with \<open>u1\<close> signed in.
\<close>

definition app0 :: application where
  "app0 = \<lparr>userId = ''u1'', serviceName = ''Birth Certificate'', status = ''pending'',
     statusHistory = Some [\<lparr>entry_status = ''pending'', entry_timestamp = 1,
        entry_updatedBy = ''u1'', entry_comments = ''Application submitted''\<rparr>],
     updatedAt = None, lastUpdatedBy = None, completedAt = None\<rparr>"

definition db0 :: firestore where
  "db0 = \<lparr>applications = [''a1'' \<mapsto> app0], notifications = []\<rparr>"

definition env0 :: env where
  "env0 = \<lparr>currentUser = Some ''u1'', serverTimestamp = 5, get_fails = False,
     update_fails = False, add_fails = False\<rparr>"

section \<open>JavaScript values\<close>

text \<open>
  The values a caller can hand to the validators and to the logger: \<open>undefined\<close>, \<open>null\<close>,
  booleans, numbers (the integers; fractions, \<open>NaN\<close> and the infinities are outside the
  model), strings, arrays, and plain objects. An object is the list of its own enumerable
  properties in the order they were created; its keys are pairwise distinct in JavaScript.
\<close>

datatype jsval =
  JUndefined | JNull | JBool bool | JNum int | JStr string
  | JArr "jsval list" | JObj "(string \<times> jsval) list"

text \<open>Truthiness, as \<open>!x\<close>, \<open>x || y\<close> and \<open>x ? a : b\<close> read it.\<close>

fun truthy :: "jsval \<Rightarrow> bool" where
  "truthy JUndefined = False"
| "truthy JNull = False"
| "truthy (JBool b) = b"
| "truthy (JNum n) = (n \<noteq> 0)"
| "truthy (JStr s) = (s \<noteq> [])"
| "truthy (JArr xs) = True"
| "truthy (JObj kvs) = True"

text \<open>\<open>obj[field]\<close> on a plain object: \<open>undefined\<close> for a key it does not have.\<close>

definition js_get :: "(string \<times> jsval) list \<Rightarrow> string \<Rightarrow> jsval" where
  "js_get obj field = (case map_of obj field of None \<Rightarrow> JUndefined | Some v \<Rightarrow> v)"

text \<open>\<open>!obj[field]\<close>, the test both validators apply to each required field.\<close>

definition field_absent :: "(string \<times> jsval) list \<Rightarrow> string \<Rightarrow> bool" where
  "field_absent obj field = (\<not> truthy (js_get obj field))"

text \<open>\<open>Array.prototype.join\<close> on an array of strings.\<close>

fun join :: "string \<Rightarrow> string list \<Rightarrow> string" where
  "join sep [] = []"
| "join sep [x] = x"
| "join sep (x # y # ys) = x @ sep @ join sep (y # ys)"

text \<open>Decimal digits of a number, as \<open>String(n)\<close> prints an integer.\<close>

definition digit_char :: "nat \<Rightarrow> char" where
  "digit_char n = ''0123456789'' ! n"

function nat_to_string :: "nat \<Rightarrow> string" where
  "nat_to_string n =
     (if n < 10 then [digit_char n] else nat_to_string (n div 10) @ [digit_char (n mod 10)])"
  by pat_completeness auto
termination
  by (relation "measure (\<lambda>n. n)") auto

declare nat_to_string.simps [simp del]

definition int_to_string :: "int \<Rightarrow> string" where
  "int_to_string i = (if i < 0 then ''-'' @ nat_to_string (nat (- i)) else nat_to_string (nat i))"

text \<open>
  \<open>String(v)\<close>, the coercion \<open>RegExp.prototype.test\<close> applies to its argument. An array
  prints its elements joined by commas, with \<open>null\<close> and \<open>undefined\<close> as the empty string.
\<close>

fun js_to_string :: "jsval \<Rightarrow> string" where
  "js_to_string JUndefined = ''undefined''"
| "js_to_string JNull = ''null''"
| "js_to_string (JBool b) = (if b then ''true'' else ''false'')"
| "js_to_string (JNum n) = int_to_string n"
| "js_to_string (JStr s) = s"
| "js_to_string (JArr xs) =
     join '','' (map (\<lambda>x. if x = JUndefined \<or> x = JNull then [] else js_to_string x) xs)"
| "js_to_string (JObj kvs) = ''[object Object]''"

section \<open>Regular expressions\<close>

text \<open>
  The regular expressions of the validators are anchored at both ends and use character
  classes, concatenation and repetition only. \<open>regex_test r s\<close> is
  \<open>/^r$/.test(s)\<close>, computed by derivatives. A character of a string is a code unit
  below 256, the first 256 code points of Unicode. Of these, \<open>\<bslash>s\<close> matches the tab, the
  line feed, the vertical tab, the form feed, the carriage return, the space and the
  no-break space \<open>U+00A0\<close>; \<open>\<bslash>d\<close> matches the ten digits of ASCII.
\<close>

datatype rx = Nul | Eps | Sym "char \<Rightarrow> bool" | Alt rx rx | Seq rx rx | Star rx

fun nullable :: "rx \<Rightarrow> bool" where
  "nullable Nul = False"
| "nullable Eps = True"
| "nullable (Sym P) = False"
| "nullable (Alt r s) = (nullable r \<or> nullable s)"
| "nullable (Seq r s) = (nullable r \<and> nullable s)"
| "nullable (Star r) = True"

fun rx_deriv :: "char \<Rightarrow> rx \<Rightarrow> rx" where
  "rx_deriv c Nul = Nul"
| "rx_deriv c Eps = Nul"
| "rx_deriv c (Sym P) = (if P c then Eps else Nul)"
| "rx_deriv c (Alt r s) = Alt (rx_deriv c r) (rx_deriv c s)"
| "rx_deriv c (Seq r s) =
     (if nullable r then Alt (Seq (rx_deriv c r) s) (rx_deriv c s) else Seq (rx_deriv c r) s)"
| "rx_deriv c (Star r) = Seq (rx_deriv c r) (Star r)"

fun regex_test :: "rx \<Rightarrow> string \<Rightarrow> bool" where
  "regex_test r [] = nullable r"
| "regex_test r (c # cs) = regex_test (rx_deriv c r) cs"

text \<open>\<open>r+\<close>, \<open>r{n}\<close> and \<open>r{0,n}\<close>.\<close>

definition rx_plus :: "rx \<Rightarrow> rx" where
  "rx_plus r = Seq r (Star r)"

fun rx_times :: "nat \<Rightarrow> rx \<Rightarrow> rx" where
  "rx_times 0 r = Eps"
| "rx_times (Suc n) r = Seq r (rx_times n r)"

fun rx_upto_times :: "nat \<Rightarrow> rx \<Rightarrow> rx" where
  "rx_upto_times 0 r = Eps"
| "rx_upto_times (Suc n) r = Alt Eps (Seq r (rx_upto_times n r))"

definition is_digit :: "char \<Rightarrow> bool" where
  "is_digit c = (c \<in> set ''0123456789'')"

definition is_space :: "char \<Rightarrow> bool" where
  "is_space c =
     (c \<in> set [CHR 0x09, CHR 0x0A, CHR 0x0B, CHR 0x0C, CHR 0x0D, CHR '' '', CHR 0xA0])"

text \<open>The class \<open>[^\<bslash>s@]\<close>.\<close>

definition not_space_at :: "char \<Rightarrow> bool" where
  "not_space_at c = (\<not> is_space c \<and> c \<noteq> CHR ''@'')"

text \<open>\<open>/^[^\<bslash>s@]+@[^\<bslash>s@]+\<bslash>.[^\<bslash>s@]+$/\<close>\<close>

definition emailRegex :: rx where
  "emailRegex =
     Seq (rx_plus (Sym not_space_at)) (Seq (Sym (\<lambda>c. c = CHR ''@''))
       (Seq (rx_plus (Sym not_space_at)) (Seq (Sym (\<lambda>c. c = CHR ''.''))
         (rx_plus (Sym not_space_at)))))"

text \<open>\<open>/^\<bslash>d{10,15}$/\<close>\<close>

definition phoneRegex :: rx where
  "phoneRegex = Seq (rx_times 10 (Sym is_digit)) (rx_upto_times 5 (Sym is_digit))"

text \<open>
  The language of a regular expression, the reference the matcher is checked against.
\<close>

definition lang_conc :: "string set \<Rightarrow> string set \<Rightarrow> string set" where
  "lang_conc A B = {u @ v | u v. u \<in> A \<and> v \<in> B}"

inductive_set lang_star :: "string set \<Rightarrow> string set" for A :: "string set" where
  star_nil: "[] \<in> lang_star A"
| star_step: "u \<in> A \<Longrightarrow> v \<in> lang_star A \<Longrightarrow> u @ v \<in> lang_star A"

fun lang :: "rx \<Rightarrow> string set" where
  "lang Nul = {}"
| "lang Eps = {[]}"
| "lang (Sym P) = {[c] | c. P c}"
| "lang (Alt r s) = lang r \<union> lang s"
| "lang (Seq r s) = lang_conc (lang r) (lang s)"
| "lang (Star r) = lang_star (lang r)"

text \<open>
  The shape the specification calls a conventional \<open>local@domain.tld\<close> address: three
  non-empty parts free of white space and of \<open>@\<close>, separated by one \<open>@\<close> and by a dot.
\<close>

definition email_shape :: "string \<Rightarrow> bool" where
  "email_shape s =
     (\<exists>a b c. s = a @ ''@'' @ b @ ''.'' @ c \<and> a \<noteq> [] \<and> b \<noteq> [] \<and> c \<noteq> [] \<and>
        list_all not_space_at a \<and> list_all not_space_at b \<and> list_all not_space_at c)"

section \<open>Validators\<close>

subsection \<open>validateServiceData (services.js)\<close>

definition required_service_fields :: "string list" where
  "required_service_fields = [''name'', ''description'', ''category'']"

definition validCategories :: "string list" where
  "validCategories = [''certificate'', ''license'', ''welfare'', ''other'']"

text \<open>
  \<open>validateServiceData(serviceData)\<close> returns nothing and throws on the first failed check.
  \<open>validCategories.includes(serviceData.category)\<close> compares without coercion, so only a
  string can be a member.
\<close>

definition validateServiceData :: "(string \<times> jsval) list \<Rightarrow> js_error + unit" where
  "validateServiceData serviceData =
     (let missing = filter (field_absent serviceData) required_service_fields
      in if length missing > 0
         then Inl (Error (''Missing required fields: '' @ join '', '' missing))
         else if js_get serviceData ''category'' \<notin> set (map JStr validCategories)
         then Inl (Error ''Invalid service category'')
         else Inr ())"

subsection \<open>validateApplicationData (applications.js)\<close>

definition required_application_fields :: "string list" where
  "required_application_fields =
     [''serviceId'', ''applicantName'', ''applicantEmail'', ''applicantPhone'']"

text \<open>
  \<open>validateApplicationData(applicationData)\<close>. \<open>emailRegex.test\<close> coerces its argument to a
  string; \<open>applicationData.applicantPhone.replace(/\<bslash>D/g, '')\<close> is a TypeError on a value
  that is not a string, and on a string it keeps the digits.
\<close>

definition validateApplicationData :: "(string \<times> jsval) list \<Rightarrow> js_error + unit" where
  "validateApplicationData applicationData =
     (let missing = filter (field_absent applicationData) required_application_fields
      in if length missing > 0
         then Inl (Error (''Missing required fields: '' @ join '', '' missing))
         else if \<not> regex_test emailRegex
                     (js_to_string (js_get applicationData ''applicantEmail''))
         then Inl (Error ''Invalid email format'')
         else (case js_get applicationData ''applicantPhone'' of
                 JStr phone \<Rightarrow>
                   if \<not> regex_test phoneRegex (filter is_digit phone)
                   then Inl (Error ''Invalid phone number format'')
                   else Inr ()
               | _ \<Rightarrow> Inl TypeError))"

subsection \<open>Sample inputs of the validators\<close>

definition service_input_empty :: "(string \<times> jsval) list" where
  "service_input_empty = []"

definition service_input_bad_category :: "(string \<times> jsval) list" where
  "service_input_bad_category =
     [(''name'', JStr ''Birth Certificate''), (''description'', JStr ''Issue of a certificate''),
      (''category'', JStr ''permit'')]"

definition service_input_valid :: "(string \<times> jsval) list" where
  "service_input_valid =
     [(''name'', JStr ''Birth Certificate''), (''description'', JStr ''Issue of a certificate''),
      (''category'', JStr ''certificate'')]"

text \<open>Scenario B of the specification: \<open>{serviceId: 's1'}\<close>.\<close>

definition application_input_scenario_B :: "(string \<times> jsval) list" where
  "application_input_scenario_B = [(''serviceId'', JStr ''s1'')]"

definition application_input_bad_email :: "(string \<times> jsval) list" where
  "application_input_bad_email =
     [(''serviceId'', JStr ''s1''), (''applicantName'', JStr ''Asha''),
      (''applicantEmail'', JStr ''asha.example.com''), (''applicantPhone'', JStr ''9876543210'')]"

text \<open>An address with a no-break space in its local part.\<close>

definition application_input_nbsp_email :: "(string \<times> jsval) list" where
  "application_input_nbsp_email =
     [(''serviceId'', JStr ''s1''), (''applicantName'', JStr ''Asha''),
      (''applicantEmail'', JStr (''as'' @ [CHR 0xA0] @ ''ha@example.com'')),
      (''applicantPhone'', JStr ''9876543210'')]"

definition application_input_bad_phone :: "(string \<times> jsval) list" where
  "application_input_bad_phone =
     [(''serviceId'', JStr ''s1''), (''applicantName'', JStr ''Asha''),
      (''applicantEmail'', JStr ''asha@example.com''), (''applicantPhone'', JStr ''98765-432'')]"

definition application_input_valid :: "(string \<times> jsval) list" where
  "application_input_valid =
     [(''serviceId'', JStr ''s1''), (''applicantName'', JStr ''Asha''),
      (''applicantEmail'', JStr ''asha@example.com''),
      (''applicantPhone'', JStr ''+91 98765-43210'')]"

section \<open>Estimated completion date (applications.js)\<close>

subsection \<open>Numbers and the host\<close>

text \<open>
  A JavaScript number is an IEEE 754 double. The numbers that occur below are integers or
  \<open>Infinity\<close>. Every integer of magnitude up to \<open>2^53\<close> is a double, and a sum or a product of
  integers is exact when its result is such an integer.
\<close>

datatype js_number = Num int | PosInfinity

text \<open>
  What the language leaves to the implementation: whether \<open>parseInt\<close> replaces the digits
  after the 20th significant one by \<open>0\<close>, and the offset of local time from UTC, in
  milliseconds, at an instant given in UTC (\<open>utc_offset\<close>) and at a time given in local time
  (\<open>local_offset\<close>). Where the offset of the time zone changes, the two differ.
\<close>

record host =
  truncates_long_integers :: bool
  utc_offset :: "int \<Rightarrow> int"
  local_offset :: "int \<Rightarrow> int"

text \<open>
  The number for a natural number \<open>n\<close>: \<open>n\<close> itself below \<open>2^53\<close>; beyond, \<open>n\<close> rounded to 53
  significant bits, to the nearest and to the even significand when \<open>n\<close> is half way, and
  \<open>Infinity\<close> when this reaches \<open>2^1024\<close>.
\<close>

fun bit_length :: "nat \<Rightarrow> nat" where
  "bit_length n = (if n = 0 then 0 else Suc (bit_length (n div 2)))"

declare bit_length.simps [simp del]

definition to_double :: "nat \<Rightarrow> js_number" where
  "to_double n =
     (if n < 2 ^ 53 then Num (int n)
      else let e = bit_length n - 53;
               q = n div 2 ^ e;
               r = n mod 2 ^ e;
               q' = (if 2 ^ e < 2 * r \<or> (2 * r = 2 ^ e \<and> odd q) then q + 1 else q)
           in if 2 ^ 1024 \<le> q' * 2 ^ e then PosInfinity else Num (int (q' * 2 ^ e)))"

text \<open>\<open>a + b\<close> on the numbers that occur.\<close>

fun js_add :: "js_number \<Rightarrow> js_number \<Rightarrow> js_number" where
  "js_add (Num a) (Num b) = Num (a + b)"
| "js_add _ _ = PosInfinity"

subsection \<open>parseProcessingTime\<close>

text \<open>
  \<open>processingTime.match(/(\<bslash>d+)/)\<close>: the expression is not anchored, so the match is
  tried at each position from the left; at the first position where a digit stands the
  greedy \<open>+\<close> takes the whole run of digits. \<open>None\<close> is the \<open>null\<close> of no match.
\<close>

fun match_digits :: "string \<Rightarrow> string option" where
  "match_digits [] = None"
| "match_digits (c # cs) =
     (if is_digit c then Some (takeWhile is_digit (c # cs)) else match_digits cs)"

text \<open>
  The integer that a string of digits denotes in base ten, the most significant digit
  first. A digit is worth its code unit less the code unit of \<open>0\<close>.
\<close>

definition digit_value :: "char \<Rightarrow> nat" where
  "digit_value c = of_char c - 48"

definition mathInt :: "string \<Rightarrow> nat" where
  "mathInt ds = foldl (\<lambda>n c. 10 * n + digit_value c) 0 ds"

text \<open>
  \<open>parseInt(match[1])\<close> on a non-empty string of digits: there is no white space, sign or
  prefix \<open>0x\<close> to strip, and the radix is ten. When the string has more than 20 significant
  digits, the implementation may replace each digit after the 20th by \<open>0\<close>. The result is
  the number for the integer that the digits denote.
\<close>

definition parseInt :: "host \<Rightarrow> string \<Rightarrow> js_number" where
  "parseInt h ds =
     (let significant = dropWhile (\<lambda>c. c = CHR ''0'') ds;
          z = (if truncates_long_integers h \<and> 20 < length significant
               then take 20 significant @ replicate (length significant - 20) (CHR ''0'')
               else ds)
      in to_double (mathInt z))"

text \<open>
  \<open>parseProcessingTime(processingTime)\<close> on a string or on an absent value (\<open>None\<close>):
  \<open>!processingTime\<close> holds for \<open>undefined\<close> and for the empty string.
\<close>

definition parseProcessingTime :: "host \<Rightarrow> string option \<Rightarrow> js_number" where
  "parseProcessingTime h processingTime =
     (case processingTime of
        None \<Rightarrow> Num 7
      | Some s \<Rightarrow>
          if s = [] then Num 7
          else (case match_digits s of None \<Rightarrow> Num 7 | Some m \<Rightarrow> parseInt h m))"

text \<open>
  The value of a digit string as the specification reads it: the sum of its digits, each
  times the power of ten of its place. The digits are read off a table.
\<close>

definition digit_table :: "(char \<times> nat) list" where
  "digit_table =
     [(CHR ''0'', 0), (CHR ''1'', 1), (CHR ''2'', 2), (CHR ''3'', 3), (CHR ''4'', 4),
      (CHR ''5'', 5), (CHR ''6'', 6), (CHR ''7'', 7), (CHR ''8'', 8), (CHR ''9'', 9)]"

definition digit_of :: "char \<Rightarrow> nat" where
  "digit_of c = (case map_of digit_table c of Some d \<Rightarrow> d | None \<Rightarrow> 0)"

definition decimal_value :: "string \<Rightarrow> nat" where
  "decimal_value ds = (\<Sum>i < length ds. digit_of (ds ! i) * 10 ^ (length ds - 1 - i))"

subsection \<open>Dates\<close>

text \<open>
  A \<open>Date\<close> holds a time value: the milliseconds since the beginning of 1970 in UTC, or
  \<open>NaN\<close> (\<open>Invalid Date\<close>), which is \<open>None\<close> here. The functions below are those by which the
  language defines \<open>getDate\<close> and \<open>setDate\<close>. A time value is at most \<open>8.64 * 10^15\<close> in
  magnitude, which is less than \<open>2^53\<close>, and the offsets of a host are less than a day. Where
  a sum or a product below reaches \<open>2^53\<close>, the doubles round it to a number that is no
  smaller than \<open>2^53\<close>, and the time value that comes of it is clipped to \<open>NaN\<close> with the
  doubles as it is with the integers; so the arithmetic is written over the integers.
\<close>

definition msPerDay :: int where
  "msPerDay = 86400000"

definition Day :: "int \<Rightarrow> int" where
  "Day t = t div msPerDay"

definition TimeWithinDay :: "int \<Rightarrow> int" where
  "TimeWithinDay t = t mod msPerDay"

definition DaysInYear :: "int \<Rightarrow> int" where
  "DaysInYear y =
     (if y mod 4 \<noteq> 0 then 365 else if y mod 100 \<noteq> 0 then 366
      else if y mod 400 \<noteq> 0 then 365 else 366)"

definition DayFromYear :: "int \<Rightarrow> int" where
  "DayFromYear y =
     365 * (y - 1970) + (y - 1969) div 4 - (y - 1901) div 100 + (y - 1601) div 400"

definition TimeFromYear :: "int \<Rightarrow> int" where
  "TimeFromYear y = msPerDay * DayFromYear y"

text \<open>
  \<open>YearFromTime(t)\<close> is the largest \<open>y\<close> with \<open>TimeFromYear(y) \<le> t\<close>. Four hundred years have
  146097 days, which gives a year that is off by one at most.
\<close>

definition YearFromTime :: "int \<Rightarrow> int" where
  "YearFromTime t =
     (let d = Day t;
          y = 1970 + (400 * d) div 146097
      in if DayFromYear (y + 1) \<le> d then y + 1
         else if DayFromYear y \<le> d then y
         else y - 1)"

definition InLeapYear :: "int \<Rightarrow> int" where
  "InLeapYear t = (if DaysInYear (YearFromTime t) = 366 then 1 else 0)"

definition DayWithinYear :: "int \<Rightarrow> int" where
  "DayWithinYear t = Day t - DayFromYear (YearFromTime t)"

definition MonthFromTime :: "int \<Rightarrow> int" where
  "MonthFromTime t =
     (let d = DayWithinYear t; l = InLeapYear t
      in if d < 31 then 0
         else if d < 59 + l then 1
         else if d < 90 + l then 2
         else if d < 120 + l then 3
         else if d < 151 + l then 4
         else if d < 181 + l then 5
         else if d < 212 + l then 6
         else if d < 243 + l then 7
         else if d < 273 + l then 8
         else if d < 304 + l then 9
         else if d < 334 + l then 10
         else 11)"

definition DateFromTime :: "int \<Rightarrow> int" where
  "DateFromTime t =
     (let d = DayWithinYear t; l = InLeapYear t; m = MonthFromTime t
      in if m = 0 then d + 1
         else if m = 1 then d - 30
         else if m = 2 then d - 58 - l
         else if m = 3 then d - 89 - l
         else if m = 4 then d - 119 - l
         else if m = 5 then d - 150 - l
         else if m = 6 then d - 180 - l
         else if m = 7 then d - 211 - l
         else if m = 8 then d - 242 - l
         else if m = 9 then d - 272 - l
         else if m = 10 then d - 303 - l
         else d - 333 - l)"

text \<open>
  \<open>MakeDay(year, month, date)\<close> on integers: the day number of the first day of the month
  \<open>month mod 12\<close> of the year \<open>year + month div 12\<close>, plus \<open>date - 1\<close>. A date beyond the end of
  the month counts on into the following months.
\<close>

definition days_before_month :: "int list" where
  "days_before_month = [0, 31, 59, 90, 120, 151, 181, 212, 243, 273, 304, 334]"

definition first_day_of_month :: "int \<Rightarrow> int \<Rightarrow> int" where
  "first_day_of_month ym mn =
     DayFromYear ym + days_before_month ! nat mn +
       (if DaysInYear ym = 366 \<and> 2 \<le> mn then 1 else 0)"

definition MakeDay :: "int \<Rightarrow> int \<Rightarrow> int \<Rightarrow> int" where
  "MakeDay year month date =
     (let ym = year + month div 12;
          mn = month mod 12
      in first_day_of_month ym mn + date - 1)"

definition MakeDate :: "int \<Rightarrow> int \<Rightarrow> int" where
  "MakeDate day time = day * msPerDay + time"

definition TimeClip :: "int \<Rightarrow> int option" where
  "TimeClip time = (if 8640000000000000 < \<bar>time\<bar> then None else Some time)"

definition LocalTime :: "host \<Rightarrow> int \<Rightarrow> int" where
  "LocalTime h t = t + utc_offset h t"

definition UTC :: "host \<Rightarrow> int \<Rightarrow> int" where
  "UTC h t = t - local_offset h t"

text \<open>\<open>date.getDate()\<close> and \<open>date.setDate(dt)\<close> on a date with the time value \<open>t\<close>.\<close>

definition getDate :: "host \<Rightarrow> int \<Rightarrow> int" where
  "getDate h t = DateFromTime (LocalTime h t)"

definition setDate :: "host \<Rightarrow> int \<Rightarrow> js_number \<Rightarrow> int option" where
  "setDate h t dt =
     (case dt of
        PosInfinity \<Rightarrow> None
      | Num d \<Rightarrow>
          (let tl = LocalTime h t;
               newDate = MakeDate (MakeDay (YearFromTime tl) (MonthFromTime tl) d)
                           (TimeWithinDay tl)
           in TimeClip (UTC h newDate)))"

subsection \<open>calculateEstimatedDate\<close>

text \<open>
  \<open>calculateEstimatedDate(processingTime)\<close>, with the time value of the \<open>new Date()\<close> it
  starts from as an argument; the result is the time value of the date returned.
\<close>

definition calculateEstimatedDate :: "host \<Rightarrow> int \<Rightarrow> string option \<Rightarrow> int option" where
  "calculateEstimatedDate h now processingTime =
     (let days = parseProcessingTime h processingTime;
          date = now
      in setDate h date (js_add (Num (getDate h date)) days))"

text \<open>
  A host in Indian Standard Time, five and a half hours ahead of UTC all year, whose
  \<open>parseInt\<close> reads every digit; a host whose clocks go forward by an hour at the instant
  \<open>100000000\<close> (a local time in the hour that is skipped is read with the offset before the
  change); and an instant in November 2023.
\<close>

definition host_ist :: host where
  "host_ist = \<lparr>truncates_long_integers = False,
               utc_offset = (\<lambda>t. 19800000), local_offset = (\<lambda>t. 19800000)\<rparr>"

definition host_dst :: host where
  "host_dst = \<lparr>truncates_long_integers = False,
               utc_offset = (\<lambda>t. if t < 100000000 then 0 else 3600000),
               local_offset = (\<lambda>t. if t < 103600000 then 0 else 3600000)\<rparr>"

definition now0 :: int where
  "now0 = 1700000000000"

section \<open>Logger (logger.js)\<close>

subsection \<open>Own properties of objects\<close>

text \<open>
  A key is an array index when it is the canonical decimal form of a number up to
  \<open>2^32 - 2\<close>. \<open>Object.entries\<close>, \<open>for ... in\<close> and the spread \<open>{...obj}\<close> enumerate the own
  properties of an object with the array indices first, in ascending numeric order, and the
  other keys after them in the order of their creation.
\<close>

definition is_array_index :: "string \<Rightarrow> bool" where
  "is_array_index k =
     (k \<noteq> [] \<and> list_all is_digit k \<and> (k = ''0'' \<or> hd k \<noteq> CHR ''0'') \<and>
      mathInt k < 2 ^ 32 - 1)"

definition object_entries :: "(string \<times> 'a) list \<Rightarrow> (string \<times> 'a) list" where
  "object_entries kvs =
     sort_key (\<lambda>kv. mathInt (fst kv)) (filter (\<lambda>kv. is_array_index (fst kv)) kvs) @
     filter (\<lambda>kv. \<not> is_array_index (fst kv)) kvs"

text \<open>
  \<open>obj[key] = value\<close>: the value of an existing key is replaced where the key stands, a
  new key is created last.
\<close>

fun obj_assign :: "(string \<times> 'a) list \<Rightarrow> string \<Rightarrow> 'a \<Rightarrow> (string \<times> 'a) list" where
  "obj_assign [] key v = [(key, v)]"
| "obj_assign ((k, w) # kvs) key v =
     (if k = key then (k, v) # kvs else (k, w) # obj_assign kvs key v)"

text \<open>
  The own enumerable properties that \<open>{...v}\<close> copies: those of an object, the elements of
  an array under their indices, none of a primitive.
\<close>

definition own_properties :: "jsval \<Rightarrow> (string \<times> jsval) list" where
  "own_properties v =
     (case v of
        JObj kvs \<Rightarrow> object_entries kvs
      | JArr xs \<Rightarrow> zip (map nat_to_string [0 ..< length xs]) xs
      | _ \<Rightarrow> [])"

text \<open>\<open>{...base, ...extra}\<close> for an object literal whose first properties are \<open>base\<close>.\<close>

definition spread_into :: "(string \<times> jsval) list \<Rightarrow> (string \<times> jsval) list \<Rightarrow> (string \<times> jsval) list"
where
  "spread_into base extra = foldl (\<lambda>obj kv. obj_assign obj (fst kv) (snd kv)) base extra"

subsection \<open>Strings\<close>

text \<open>\<open>toLowerCase\<close> and \<open>toUpperCase\<close> on the letters of ASCII.\<close>

definition toLowerCase :: "string \<Rightarrow> string" where
  "toLowerCase s =
     map (\<lambda>c. case map_of (zip ''ABCDEFGHIJKLMNOPQRSTUVWXYZ'' ''abcdefghijklmnopqrstuvwxyz'') c of
                 None \<Rightarrow> c | Some l \<Rightarrow> l) s"

definition toUpperCase :: "string \<Rightarrow> string" where
  "toUpperCase s =
     map (\<lambda>c. case map_of (zip ''abcdefghijklmnopqrstuvwxyz'' ''ABCDEFGHIJKLMNOPQRSTUVWXYZ'') c of
                 None \<Rightarrow> c | Some u \<Rightarrow> u) s"

text \<open>\<open>s.includes(sub)\<close>: \<open>sub\<close> stands in \<open>s\<close> at some position.\<close>

fun js_includes :: "string \<Rightarrow> string \<Rightarrow> bool" where
  "js_includes [] sub = (sub = [])"
| "js_includes (c # cs) sub = (take (length sub) (c # cs) = sub \<or> js_includes cs sub)"

subsection \<open>sanitizeData\<close>

definition sensitiveFields :: "string list" where
  "sensitiveFields = [''password'', ''token'', ''secret'', ''key'', ''auth'', ''credential'']"

text \<open>\<open>sensitiveFields.some(field => lowerKey.includes(field))\<close> for \<open>lowerKey = key.toLowerCase()\<close>.\<close>

definition is_sensitive :: "string \<Rightarrow> bool" where
  "is_sensitive key = list_ex (\<lambda>field. js_includes (toLowerCase key) field) sensitiveFields"

text \<open>
  The inner function \<open>sanitizeObject\<close>: an array is mapped element by element, an object
  is rebuilt from its entries, every other value is returned as it is. The assignment
  \<open>sanitizedObj[key] = ...\<close> creates the key, except for the key \<open>__proto__\<close>: there it
  runs the setter of the prototype and creates no property.
\<close>

function sanitizeObject :: "jsval \<Rightarrow> jsval" where
  "sanitizeObject (JArr xs) = JArr (map sanitizeObject xs)"
| "sanitizeObject (JObj kvs) =
     JObj (map (\<lambda>kv. (fst kv, if is_sensitive (fst kv) then JStr ''[REDACTED]''
                               else sanitizeObject (snd kv)))
            (filter (\<lambda>kv. fst kv \<noteq> ''__proto__'') (object_entries kvs)))"
| "sanitizeObject JUndefined = JUndefined"
| "sanitizeObject JNull = JNull"
| "sanitizeObject (JBool b) = JBool b"
| "sanitizeObject (JNum n) = JNum n"
| "sanitizeObject (JStr s) = JStr s"
  by pat_completeness auto
termination
proof (relation "measure size")
  fix kvs :: "(string \<times> jsval) list" and kv
  assume "kv \<in> set (filter (\<lambda>kv. fst kv \<noteq> ''__proto__'') (object_entries kvs))"
  then have mem: "kv \<in> set kvs" by (auto simp: object_entries_def)
  have "size (snd kv) \<le> size_prod (\<lambda>_. 0) size kv" by (cases kv) simp
  with mem have "size (snd kv) \<le> size_list (size_prod (\<lambda>_. 0) size) kvs"
    by (rule size_list_estimation')
  then show "(snd kv, JObj kvs) \<in> measure size" by simp
next
  fix xs :: "jsval list" and x
  assume "x \<in> set xs"
  then have "size x \<le> size_list size xs"
    by (rule size_list_estimation') simp
  then show "(x, JArr xs) \<in> measure size" by simp
qed simp

text \<open>\<open>typeof v === 'object'\<close>\<close>

definition typeof_object :: "jsval \<Rightarrow> bool" where
  "typeof_object v = (case v of JNull \<Rightarrow> True | JArr xs \<Rightarrow> True | JObj kvs \<Rightarrow> True | _ \<Rightarrow> False)"

text \<open>
  \<open>sanitizeData(data)\<close>: a falsy value or a value that is no object is returned; otherwise
  \<open>sanitizeObject\<close> runs on the shallow copy \<open>{ ...data }\<close>, which is a plain object also
  when \<open>data\<close> is an array.
\<close>

definition sanitizeData :: "jsval \<Rightarrow> jsval" where
  "sanitizeData data =
     (if \<not> truthy data \<or> \<not> typeof_object data then data
      else let sanitized = JObj (own_properties data) in sanitizeObject sanitized)"

subsection \<open>Log entries and the logger's state\<close>

text \<open>
  A log entry as \<open>log\<close> builds it: \<open>{timestamp, level, message, data, context, id}\<close>.
\<close>

record log_entry =
  log_timestamp :: string
  log_level :: string
  log_message :: string
  log_data :: jsval
  log_context :: "(string \<times> jsval) list"
  log_id :: string

text \<open>
  The calls of the console: \<open>console.log\<close> of an entry by \<open>logToConsole\<close>, \<open>console.log\<close> of
  the number of flushed entries, and \<open>console.error\<close> of a failed flush.
\<close>

datatype console_call = ConsoleEntry log_entry | ConsoleFlushed nat | ConsoleFlushFailed

text \<open>
  The fields of a \<open>Logger\<close>, with the Firestore collaborator behind \<open>this.db\<close>: \<open>has_db\<close>
  says that \<open>this.db\<close> is not \<open>null\<close>, \<open>stored\<close> is the \<open>logs\<close> collection, and \<open>in_flight\<close>
  holds the batches of flushes that \<open>log\<close> started and whose \<open>commit\<close> is not answered yet.
  \<open>console\<close> is the sequence of calls of the console so far.
\<close>

record logger =
  has_db :: bool
  enableConsole :: bool
  enableFirestore :: bool
  sessionId :: string
  logBuffer :: "log_entry list"
  maxBufferSize :: nat
  console :: "console_call list"
  stored :: "log_entry list"
  in_flight :: "log_entry list list"

text \<open>
  What the runtime answers during one call of \<open>log\<close>: the clock's ISO string, the identifier
  \<open>generateLogId\<close> draws, and the browser's \<open>navigator.userAgent\<close> and \<open>window.location.href\<close>
  (\<open>null\<close> outside a browser).
\<close>

record runtime =
  rt_timestamp :: string
  rt_logId :: string
  rt_userAgent :: jsval
  rt_url :: jsval

text \<open>The constructor: an empty buffer of capacity 100.\<close>

definition new_logger :: "bool \<Rightarrow> bool \<Rightarrow> bool \<Rightarrow> string \<Rightarrow> logger" where
  "new_logger firestore enable_console enable_firestore session =
     \<lparr>has_db = firestore, enableConsole = enable_console, enableFirestore = enable_firestore,
      sessionId = session, logBuffer = [], maxBufferSize = 100, console = [], stored = [],
      in_flight = []\<rparr>"

subsection \<open>flushLogs\<close>

text \<open>
  \<open>flushLogs\<close> up to its \<open>await\<close>: nothing happens without a store or with an empty buffer
  (\<open>None\<close>); otherwise the buffer is copied into \<open>logsToFlush\<close>, replaced by the empty one,
  and the batch is handed to \<open>commit\<close>.
\<close>

definition flushLogs_start :: "logger \<Rightarrow> (log_entry list \<times> logger) option" where
  "flushLogs_start L =
     (if \<not> has_db L \<or> length (logBuffer L) = 0 then None
      else let logsToFlush = logBuffer L in Some (logsToFlush, L\<lparr>logBuffer := []\<rparr>))"

datatype commit_result = CommitOk | CommitFails

text \<open>
  \<open>flushLogs\<close> after its \<open>await\<close>. A commit that succeeds stores the batch and, with the
  console enabled, reports the count. A commit that fails is caught: \<open>console.error\<close>, then
  \<open>this.logBuffer.unshift(...this.logBuffer)\<close>, which puts the elements of the current buffer
  in front of the current buffer.
\<close>

definition flushLogs_finish :: "commit_result \<Rightarrow> log_entry list \<Rightarrow> logger \<Rightarrow> logger" where
  "flushLogs_finish result logsToFlush L =
     (case result of
        CommitOk \<Rightarrow>
          (let L' = L\<lparr>stored := stored L @ logsToFlush\<rparr>
           in if enableConsole L'
              then L'\<lparr>console := console L' @ [ConsoleFlushed (length logsToFlush)]\<rparr>
              else L')
      | CommitFails \<Rightarrow>
          (let L' = L\<lparr>console := console L @ [ConsoleFlushFailed]\<rparr>
           in L'\<lparr>logBuffer := logBuffer L' @ logBuffer L'\<rparr>))"

text \<open>
  One whole flush: \<open>arrivals\<close> are the entries that calls of \<open>log\<close> push onto the buffer while
  the commit is awaited.
\<close>

definition flushLogs :: "commit_result \<Rightarrow> log_entry list \<Rightarrow> logger \<Rightarrow> logger" where
  "flushLogs result arrivals L =
     (case flushLogs_start L of
        None \<Rightarrow> L
      | Some (logsToFlush, L') \<Rightarrow>
          flushLogs_finish result logsToFlush (L'\<lparr>logBuffer := logBuffer L' @ arrivals\<rparr>))"

subsection \<open>log\<close>

definition logToConsole :: "logger \<Rightarrow> log_entry \<Rightarrow> logger" where
  "logToConsole L logEntry = L\<lparr>console := console L @ [ConsoleEntry logEntry]\<rparr>"

text \<open>The entry of \<open>log(level, message, data, context)\<close>.\<close>

definition make_entry ::
  "runtime \<Rightarrow> logger \<Rightarrow> string \<Rightarrow> string \<Rightarrow> jsval \<Rightarrow> (string \<times> jsval) list \<Rightarrow> log_entry"
where
  "make_entry rt L level message data context =
     \<lparr>log_timestamp = rt_timestamp rt,
      log_level = toUpperCase level,
      log_message = message,
      log_data = (if truthy data then sanitizeData data else JNull),
      log_context =
        spread_into
          [(''sessionId'', JStr (sessionId L)), (''userAgent'', rt_userAgent rt),
           (''url'', rt_url rt)]
          (object_entries context),
      log_id = rt_logId rt\<rparr>"

text \<open>
  The method \<open>log\<close> (named \<open>logger_log\<close> here, beside the logarithm of the
  library): the console when it is enabled; then, with \<open>this.enableFirestore && this.db\<close>, the
  push onto the buffer and, when the buffer has reached \<open>maxBufferSize\<close>, a call of
  \<open>flushLogs\<close> that is not awaited: it runs up to its \<open>await\<close> and leaves its batch in
  flight. The \<open>log\<close> event dispatched on \<open>window\<close> is outside this state.
\<close>

definition logger_log ::
  "runtime \<Rightarrow> logger \<Rightarrow> string \<Rightarrow> string \<Rightarrow> jsval \<Rightarrow> (string \<times> jsval) list \<Rightarrow> logger"
where
  "logger_log rt L level message data context =
     (let logEntry = make_entry rt L level message data context;
          L1 = (if enableConsole L then logToConsole L logEntry else L)
      in if enableFirestore L1 \<and> has_db L1
         then (let L2 = L1\<lparr>logBuffer := logBuffer L1 @ [logEntry]\<rparr>
               in if length (logBuffer L2) \<ge> maxBufferSize L2
                  then (case flushLogs_start L2 of
                          None \<Rightarrow> L2
                        | Some (logsToFlush, L3) \<Rightarrow>
                            L3\<lparr>in_flight := in_flight L3 @ [logsToFlush]\<rparr>)
                  else L2)
         else L1)"

subsection \<open>getLogStatistics\<close>

text \<open>
  The counters \<open>stats.byLevel\<close> and \<open>errorMessages\<close> start as the empty object literal, which
  inherits the properties of \<open>Object.prototype\<close>. A read \<open>counts[key]\<close> finds an own
  property, or else an inherited one under one of the names below (a function, or the
  prototype object for \<open>__proto__\<close>), or else \<open>undefined\<close>.
\<close>

definition inherited_keys :: "string list" where
  "inherited_keys =
     [''constructor'', ''__defineGetter__'', ''__defineSetter__'', ''hasOwnProperty'',
      ''__lookupGetter__'', ''__lookupSetter__'', ''isPrototypeOf'', ''propertyIsEnumerable'',
      ''toString'', ''valueOf'', ''__proto__'', ''toLocaleString'']"

text \<open>
  The value of a counter is a number, or a string once an inherited property has been read
  for it: \<open>Text\<close> stands for the text of that property followed by \<open>1\<close>s, which is \<open>NaN\<close>
  when it is read as a number.
\<close>

datatype counter = Count nat | Text

datatype counter_read = Own counter | Inherited | Missing

definition read_counter :: "(string \<times> counter) list \<Rightarrow> string \<Rightarrow> counter_read" where
  "read_counter counts key =
     (case map_of counts key of
        Some v \<Rightarrow> Own v
      | None \<Rightarrow> if key \<in> set inherited_keys then Inherited else Missing)"

text \<open>
  \<open>(x || 0) + 1\<close>: a number is incremented (\<open>undefined\<close> and 0 count as 0); a function, an
  object or a string is truthy, and \<open>+\<close> appends \<open>1\<close> to its text.
\<close>

fun or_zero_plus_one :: "counter_read \<Rightarrow> counter" where
  "or_zero_plus_one Missing = Count 1"
| "or_zero_plus_one Inherited = Text"
| "or_zero_plus_one (Own (Count n)) = Count (n + 1)"
| "or_zero_plus_one (Own Text) = Text"

text \<open>
  \<open>counts[key] = (counts[key] || 0) + 1\<close>. The assignment to the key \<open>__proto__\<close> runs the
  setter of the prototype, which ignores a value that is no object: no property is created.
\<close>

definition count_key :: "(string \<times> counter) list \<Rightarrow> string \<Rightarrow> (string \<times> counter) list" where
  "count_key counts key =
     (let v = or_zero_plus_one (read_counter counts key)
      in if key = ''__proto__'' then counts else obj_assign counts key v)"

text \<open>\<open>x || 0\<close> as the dividend of a division: \<open>None\<close> is \<open>NaN\<close>.\<close>

fun number_or_zero :: "counter_read \<Rightarrow> nat option" where
  "number_or_zero Missing = Some 0"
| "number_or_zero (Own (Count n)) = Some n"
| "number_or_zero (Own Text) = None"
| "number_or_zero Inherited = None"

text \<open>The counters as numbers, when each of them is a number.\<close>

fun numeric_entries :: "(string \<times> counter) list \<Rightarrow> (string \<times> nat) list option" where
  "numeric_entries [] = Some []"
| "numeric_entries ((k, Count n) # kvs) = map_option (\<lambda>r. (k, n) # r) (numeric_entries kvs)"
| "numeric_entries ((k, Text) # kvs) = None"

text \<open>
  The fields of the result that depend on levels and messages. The hourly and per-user
  counts and the performance figures are computed beside them from other fields of the
  entries and do not enter these. The error rate is \<open>None\<close> when it is \<open>NaN\<close>. The top
  errors are \<open>None\<close> when a counter of \<open>errorMessages\<close> is a string: the comparison of the
  sort is \<open>NaN\<close> then, which leaves the order to the implementation, and the result holds
  strings for counts.
\<close>

record log_statistics =
  stats_total :: nat
  stats_byLevel :: "(string \<times> counter) list"
  stats_errorRate :: "rat option"
  stats_topErrors :: "(string \<times> nat) list option"

text \<open>
  The statistics over \<open>logs\<close>, the entries \<open>getLogs(filters, 1000)\<close> returned, in the order
  it returned them. \<open>Array.prototype.sort\<close> is stable; the comparison \<open>b[1] - a[1]\<close> puts
  the larger count first.
\<close>

definition getLogStatistics :: "log_entry list \<Rightarrow> log_statistics" where
  "getLogStatistics logs =
     (let by_level = foldl (\<lambda>counts l. count_key counts (log_level l)) [] logs;
          errorMessages =
            foldl (\<lambda>counts l. if log_level l = ''ERROR''
                               then count_key counts (log_message l) else counts) [] logs
      in \<lparr>stats_total = length logs,
          stats_byLevel = by_level,
          stats_errorRate =
            (if length logs > 0
             then map_option (\<lambda>n. of_nat n / of_nat (length logs))
                    (number_or_zero (read_counter by_level ''ERROR''))
             else Some 0),
          stats_topErrors =
            map_option
              (\<lambda>counts. take 10 (sort_key (\<lambda>kv. - int (snd kv)) (object_entries counts)))
              (numeric_entries errorMessages)\<rparr>)"

text \<open>
  The top errors as the specification words them: the messages of the \<open>ERROR\<close> entries, each
  once in the order of its first occurrence and with the number of its occurrences, sorted
  by descending count with equal counts left in that order, cut to ten.
\<close>

definition error_messages :: "log_entry list \<Rightarrow> string list" where
  "error_messages logs = map log_message (filter (\<lambda>l. log_level l = ''ERROR'') logs)"

definition first_seen :: "string list \<Rightarrow> string list" where
  "first_seen xs = rev (remdups (rev xs))"

definition topErrors_spec :: "log_entry list \<Rightarrow> (string \<times> nat) list" where
  "topErrors_spec logs =
     take 10 (sort_key (\<lambda>kv. - int (snd kv))
       (map (\<lambda>m. (m, count_list (error_messages logs) m))
         (first_seen (error_messages logs))))"

subsection \<open>Sample logger states\<close>

definition rt0 :: runtime where
  "rt0 = \<lparr>rt_timestamp = ''2024-01-01T00:00:00.000Z'', rt_logId = ''log_1_abc'',
     rt_userAgent = JNull, rt_url = JNull\<rparr>"

definition entry1 :: log_entry where
  "entry1 = \<lparr>log_timestamp = ''2024-01-01T00:00:00.000Z'', log_level = ''INFO'',
     log_message = ''first'', log_data = JNull, log_context = [], log_id = ''log_1''\<rparr>"

definition entry2 :: log_entry where
  "entry2 = \<lparr>log_timestamp = ''2024-01-01T00:00:01.000Z'', log_level = ''INFO'',
     log_message = ''second'', log_data = JNull, log_context = [], log_id = ''log_2''\<rparr>"

text \<open>A logger with a store and one buffered entry.\<close>

definition logger_one_buffered :: logger where
  "logger_one_buffered = (new_logger True True True ''session_1'')\<lparr>logBuffer := [entry1]\<rparr>"

text \<open>A logger with a store, persistence enabled and the console disabled.\<close>

definition logger_console_off :: logger where
  "logger_console_off = new_logger True False True ''session_1''"

text \<open>Scenario A: persistence enabled, console enabled, buffer empty.\<close>

definition logger_scenario_A :: logger where
  "logger_scenario_A = new_logger True True True ''session_1''"

text \<open>A logger one entry short of its capacity.\<close>

definition logger_almost_full :: logger where
  "logger_almost_full =
     (new_logger True True True ''session_1'')\<lparr>logBuffer := replicate 99 entry1\<rparr>"

definition error_entry :: "string \<Rightarrow> log_entry" where
  "error_entry m = \<lparr>log_timestamp = ''2024-01-01T00:00:00.000Z'', log_level = ''ERROR'',
     log_message = m, log_data = JNull, log_context = [], log_id = ''log_1''\<rparr>"

text \<open>Scenario D: three \<open>ERROR\<close> entries with message \<open>X\<close> and one with message \<open>Y\<close>.\<close>

definition logs_scenario_D :: "log_entry list" where
  "logs_scenario_D = [error_entry ''X'', error_entry ''Y'', error_entry ''X'', error_entry ''X'']"

text \<open>Two \<open>ERROR\<close> entries, the second with a message that is an array index.\<close>

definition logs_index_message :: "log_entry list" where
  "logs_index_message = [error_entry ''b'', error_entry ''7'']"

text \<open>Entries of two levels; one \<open>ERROR\<close> message is an array index.\<close>

definition logs_mixed :: "log_entry list" where
  "logs_mixed = [entry1, error_entry ''b'', entry2, error_entry ''7'']"

text \<open>\<open>ERROR\<close> entries whose messages name inherited properties.\<close>

definition logs_proto_message :: "log_entry list" where
  "logs_proto_message = [error_entry ''__proto__'', error_entry ''Y'']"

definition logs_constructor_message :: "log_entry list" where
  "logs_constructor_message = [error_entry ''constructor'']"

section \<open>Verified properties\<close>

subsection \<open>Status transitions\<close>

text \<open>
  Claim C2. \<open>cancelApplication\<close> is documented to cancel a pending application of the
  caller. It hands the status \<open>cancelled\<close> to \<open>updateApplicationStatus\<close>, whose list of
  valid statuses does not hold it: the owner's cancellation of a pending application, with
  every collaborator answering, throws \<open>Invalid status\<close> and writes nothing.
\<close>

theorem cancelApplication_owner_pending_fails:
  "cancelApplication env0 db0 ''a1'' '''' = Inl (Error ''Invalid status'')"
  by (simp add: cancelApplication_def updateApplicationStatus_def validStatuses_def
      env0_def db0_def app0_def)

text \<open>No caller, store or reason makes \<open>cancelApplication\<close> return normally.\<close>

lemma cancelApplication_never_succeeds:
  "cancelApplication e d applicationId reason \<noteq> Inr d'"
  by (simp add: cancelApplication_def updateApplicationStatus_def validStatuses_def
      split: option.splits)

text \<open>
  Claim C3. After every successful \<open>updateApplicationStatus\<close>, whatever the document held
  before, the stored application's \<open>status\<close> is the status of the last entry of its
  \<open>statusHistory\<close>, and the stored history is the history the document held before (none
  counts as empty) followed by one entry: it is exactly one entry longer.
\<close>

theorem updateApplicationStatus_history_invariant:
  assumes "updateApplicationStatus e d applicationId newStatus comments = Inr d'"
  shows "\<exists>old new h entry. applications d applicationId = Some old \<and>
     applications d' applicationId = Some new \<and>
     newStatus \<in> set validStatuses \<and> status new = newStatus \<and>
     statusHistory new = Some h \<and>
     h = (case statusHistory old of None \<Rightarrow> [] | Some h0 \<Rightarrow> h0) @ [entry] \<and>
     entry_status (last h) = status new \<and>
     length h = (case statusHistory old of None \<Rightarrow> 0 | Some h0 \<Rightarrow> length h0) + 1"
  using assms
  by (auto simp add: updateApplicationStatus_def createNotification_def
      updated_application_def history_or_empty_def Let_def split: option.splits if_splits)

theorem updateApplicationStatus_history_invariant_witness:
  "\<exists>d' old new h h0 entry.
     updateApplicationStatus env0 db0 ''a1'' ''under_review'' '''' = Inr d' \<and>
     applications db0 ''a1'' = Some old \<and> applications d' ''a1'' = Some new \<and>
     status new = ''under_review'' \<and>
     statusHistory old = Some h0 \<and> length h0 = 1 \<and>
     statusHistory new = Some h \<and> h = h0 @ [entry] \<and>
     entry_status (last h) = status new \<and> length h = 2"
proof -
  have "\<exists>d'. updateApplicationStatus env0 db0 ''a1'' ''under_review'' '''' = Inr d'"
    by (simp add: updateApplicationStatus_def validStatuses_def env0_def db0_def Let_def)
  then obtain d' where ok:
    "updateApplicationStatus env0 db0 ''a1'' ''under_review'' '''' = Inr d'"
    by blast
  from updateApplicationStatus_history_invariant [OF ok]
  obtain old new h entry where r: "applications db0 ''a1'' = Some old"
    "applications d' ''a1'' = Some new" "status new = ''under_review''"
    "statusHistory new = Some h"
    "h = (case statusHistory old of None \<Rightarrow> [] | Some h0 \<Rightarrow> h0) @ [entry]"
    "entry_status (last h) = status new"
    "length h = (case statusHistory old of None \<Rightarrow> 0 | Some h0 \<Rightarrow> length h0) + 1"
    by blast
  from r(1) have old: "old = app0" by (simp add: db0_def)
  obtain h0 where h0: "statusHistory old = Some h0" "length h0 = 1"
    unfolding old by (simp add: app0_def)
  from r(5,7) h0 have "h = h0 @ [entry]" "length h = 2" by simp_all
  with ok r h0 show ?thesis by blast
qed

text \<open>
  Claim C4. With a signed-in caller and a store that answers the read and the update, a
  transition of an existing application (a pending one in particular) to a valid status
  (\<open>approved\<close> in particular) returns normally; the stored history is the history the
  document held before (none counts as empty) followed by exactly one entry, whose status is
  the new status; \<open>completedAt\<close> is written exactly when the new status is \<open>approved\<close> or
  \<open>completed\<close> and is left as it was otherwise; one notification addressed to the
  application's \<open>userId\<close> and describing the change is added; and when the add of the
  notification is rejected, the transition stays written and no notification is added.
\<close>

theorem updateApplicationStatus_transition:
  assumes "applications d applicationId = Some app"
    and "newStatus \<in> set validStatuses"
    and "currentUser e = Some uid"
    and "\<not> get_fails e" and "\<not> update_fails e"
  shows "\<exists>d' app' entry.
     updateApplicationStatus e d applicationId newStatus comments = Inr d' \<and>
     applications d' applicationId = Some app' \<and>
     status app' = newStatus \<and>
     statusHistory app' =
       Some ((case statusHistory app of None \<Rightarrow> [] | Some h0 \<Rightarrow> h0) @ [entry]) \<and>
     entry_status entry = newStatus \<and> entry_updatedBy entry = uid \<and>
     completedAt app' =
       (if newStatus = ''approved'' \<or> newStatus = ''completed''
        then Some (serverTimestamp e) else completedAt app) \<and>
     userId app' = userId app \<and>
     (if add_fails e then notifications d' = notifications d
      else \<exists>n. notifications d' = notifications d @ [n] \<and>
             notif_userId n = userId app \<and> notif_applicationId n = applicationId \<and>
             notif_newStatus n = newStatus \<and> notif_isRead n = False \<and>
             notif_message n =
               ''Your application for '' @ serviceName app @ '' has been '' @ newStatus)"
  using assms
  by (simp add: updateApplicationStatus_def createNotification_def
      updated_application_def history_or_empty_def Let_def)

theorem updateApplicationStatus_transition_witness:
  "\<exists>d' app' h0 entry.
     status app0 = ''pending'' \<and>
     updateApplicationStatus env0 db0 ''a1'' ''approved'' '''' = Inr d' \<and>
     applications d' ''a1'' = Some app' \<and>
     status app' = ''approved'' \<and>
     statusHistory app0 = Some h0 \<and> length h0 = 1 \<and>
     statusHistory app' = Some (h0 @ [entry]) \<and>
     entry_status entry = ''approved'' \<and>
     completedAt app' = Some 5 \<and>
     (\<exists>n. notifications d' = [n] \<and> notif_userId n = ''u1'')"
proof -
  have a: "applications db0 ''a1'' = Some app0" by (simp add: db0_def)
  have v: "''approved'' \<in> set validStatuses" by (simp add: validStatuses_def)
  have u: "currentUser env0 = Some ''u1''" by (simp add: env0_def)
  have g: "\<not> get_fails env0" by (simp add: env0_def)
  have w: "\<not> update_fails env0" by (simp add: env0_def)
  have n: "\<not> add_fails env0" "serverTimestamp env0 = 5" "notifications db0 = []"
    "userId app0 = ''u1''" "status app0 = ''pending''"
    by (simp_all add: env0_def db0_def app0_def)
  obtain h0 where h0: "statusHistory app0 = Some h0" "length h0 = 1"
    by (simp add: app0_def)
  from updateApplicationStatus_transition [OF a v u g w, of "''''"] n h0
  show ?thesis
    by auto
qed

subsection \<open>Regular expressions\<close>

text \<open>The derivative matcher accepts exactly the language of the expression.\<close>

lemma nullable_lang: "nullable r \<longleftrightarrow> [] \<in> lang r"
  by (induction r) (auto simp: lang_conc_def intro: lang_star.star_nil)

lemma conc_Cons:
  "c # w \<in> lang_conc A B \<longleftrightarrow>
     ([] \<in> A \<and> c # w \<in> B) \<or> (\<exists>u v. w = u @ v \<and> c # u \<in> A \<and> v \<in> B)"
  unfolding lang_conc_def
  by (auto simp: Cons_eq_append_conv) 

lemma star_Cons_imp:
  "x \<in> lang_star A \<Longrightarrow> x = c # w \<Longrightarrow> \<exists>u v. w = u @ v \<and> c # u \<in> A \<and> v \<in> lang_star A"
proof (induction arbitrary: w rule: lang_star.induct)
  case star_nil
  then show ?case by simp
next
  case (star_step u v)
  show ?case
  proof (cases u)
    case Nil
    with star_step show ?thesis by simp
  next
    case (Cons a u')
    with star_step.prems have "a = c" "w = u' @ v" by simp_all
    with Cons star_step.hyps show ?thesis by blast
  qed
qed

lemma star_Cons:
  "c # w \<in> lang_star A \<longleftrightarrow> (\<exists>u v. w = u @ v \<and> c # u \<in> A \<and> v \<in> lang_star A)"
proof
  assume "c # w \<in> lang_star A"
  then show "\<exists>u v. w = u @ v \<and> c # u \<in> A \<and> v \<in> lang_star A"
    by (rule star_Cons_imp) simp
next
  assume "\<exists>u v. w = u @ v \<and> c # u \<in> A \<and> v \<in> lang_star A"
  then obtain u v where "w = u @ v" "c # u \<in> A" "v \<in> lang_star A" by blast
  then show "c # w \<in> lang_star A"
    using lang_star.star_step [of "c # u" A v] by simp
qed

lemma deriv_lang: "w \<in> lang (rx_deriv c r) \<longleftrightarrow> c # w \<in> lang r"
proof (induction r arbitrary: w)
  case (Seq r s)
  then show ?case
    by (auto simp: conc_Cons nullable_lang) (auto simp: lang_conc_def)
next
  case (Star r)
  then show ?case
    by (auto simp: star_Cons) (auto simp: lang_conc_def)
qed auto

lemma regex_test_lang: "regex_test r w \<longleftrightarrow> w \<in> lang r"
  by (induction w arbitrary: r) (simp_all add: nullable_lang deriv_lang)

lemma lang_star_Sym: "lang_star {[c] | c. P c} = {s. list_all P s}"
proof (rule set_eqI, rule iffI)
  fix s assume "s \<in> lang_star {[c] | c. P c}"
  then show "s \<in> {s. list_all P s}"
    by (induction rule: lang_star.induct) auto
next
  fix s assume "s \<in> {s. list_all P s}"
  then have "list_all P s" by simp
  then show "s \<in> lang_star {[c] | c. P c}"
  proof (induction s)
    case Nil
    show ?case by (rule lang_star.star_nil)
  next
    case (Cons a s)
    then have "[a] \<in> {[c] | c. P c}" "s \<in> lang_star {[c] | c. P c}" by simp_all
    then have "[a] @ s \<in> lang_star {[c] | c. P c}" by (rule lang_star.star_step)
    then show ?case by simp
  qed
qed

lemma conc_Sym:
  "w \<in> lang_conc {[c] | c. P c} B \<longleftrightarrow> (\<exists>c v. w = c # v \<and> P c \<and> v \<in> B)"
proof
  assume "w \<in> lang_conc {[c] | c. P c} B"
  then show "\<exists>c v. w = c # v \<and> P c \<and> v \<in> B"
    by (auto simp: lang_conc_def)
next
  assume "\<exists>c v. w = c # v \<and> P c \<and> v \<in> B"
  then obtain c v where "w = [c] @ v" "P c" "v \<in> B" by auto
  then show "w \<in> lang_conc {[c] | c. P c} B"
    unfolding lang_conc_def by blast
qed

lemma lang_Plus_Sym: "lang (rx_plus (Sym P)) = {s. s \<noteq> [] \<and> list_all P s}"
proof (rule set_eqI)
  fix w show "w \<in> lang (rx_plus (Sym P)) \<longleftrightarrow> w \<in> {s. s \<noteq> [] \<and> list_all P s}"
    by (cases w) (auto simp: rx_plus_def conc_Sym lang_star_Sym)
qed

lemma lang_times_Sym: "lang (rx_times n (Sym P)) = {s. length s = n \<and> list_all P s}"
proof (induction n)
  case 0
  show ?case by auto
next
  case (Suc n)
  show ?case
  proof (rule set_eqI)
    fix w show "w \<in> lang (rx_times (Suc n) (Sym P)) \<longleftrightarrow> w \<in> {s. length s = Suc n \<and> list_all P s}"
      by (cases w) (auto simp: Suc conc_Sym)
  qed
qed

lemma lang_upto_times_Sym: "lang (rx_upto_times n (Sym P)) = {s. length s \<le> n \<and> list_all P s}"
proof (induction n)
  case 0
  show ?case by auto
next
  case (Suc n)
  show ?case
  proof (rule set_eqI)
    fix w show "w \<in> lang (rx_upto_times (Suc n) (Sym P)) \<longleftrightarrow> w \<in> {s. length s \<le> Suc n \<and> list_all P s}"
      by (cases w) (auto simp: Suc conc_Sym)
  qed
qed

lemma emailRegex_shape: "regex_test emailRegex s \<longleftrightarrow> email_shape s"
  unfolding regex_test_lang emailRegex_def email_shape_def
  by (simp add: lang_Plus_Sym lang_conc_def) blast

lemma phoneRegex_digits:
  "regex_test phoneRegex (filter is_digit p) \<longleftrightarrow>
     10 \<le> length (filter is_digit p) \<and> length (filter is_digit p) \<le> 15"
proof -
  let ?d = "filter is_digit p"
  have all: "list_all is_digit u \<and> list_all is_digit v" if "u @ v = ?d" for u v
  proof -
    have "list_all is_digit ?d" by (simp add: list_all_iff)
    with that [symmetric] show ?thesis by simp
  qed
  have sem: "regex_test phoneRegex ?d \<longleftrightarrow>
      (\<exists>u v. ?d = u @ v \<and> length u = 10 \<and> list_all is_digit u \<and>
         length v \<le> 5 \<and> list_all is_digit v)"
    unfolding regex_test_lang phoneRegex_def
    by (auto simp: lang_times_Sym lang_upto_times_Sym lang_conc_def)
  show ?thesis
  proof
    assume "regex_test phoneRegex ?d"
    with sem obtain u v where "?d = u @ v" "length u = 10" "length v \<le> 5" by blast
    then show "10 \<le> length ?d \<and> length ?d \<le> 15" by simp
  next
    assume r: "10 \<le> length ?d \<and> length ?d \<le> 15"
    have split: "take 10 ?d @ drop 10 ?d = ?d" by simp
    from all [OF split] r split [symmetric]
    have "?d = take 10 ?d @ drop 10 ?d \<and> length (take 10 ?d) = 10 \<and>
        list_all is_digit (take 10 ?d) \<and> length (drop 10 ?d) \<le> 5 \<and>
        list_all is_digit (drop 10 ?d)"
      by auto
    then show "regex_test phoneRegex ?d" unfolding sem by blast
  qed
qed

subsection \<open>Validators\<close>

lemma missing_nonempty: "filter P fs \<noteq> [] \<longleftrightarrow> (\<exists>f \<in> set fs. P f)"
  by (simp add: filter_empty_conv)

text \<open>
  Claim C7. Reading a field as absent when \<open>!serviceData[field]\<close> holds (not there, or
  falsy): whenever one of \<open>name\<close>, \<open>description\<close>, \<open>category\<close> is absent, the service validator
  fails with the message \<open>Missing required fields:\<close> followed by every absent field, in that
  order; when all three are present it fails with \<open>Invalid service category\<close> for a category
  outside the four of the enumeration and passes for one of them; and it fails with
  \<open>Invalid service category\<close> only when all three are present.
\<close>

theorem validateServiceData_cases:
  "((\<exists>f \<in> {''name'', ''description'', ''category''}. field_absent sd f) \<longrightarrow>
      validateServiceData sd =
        Inl (Error (''Missing required fields: '' @
          join '', '' (filter (field_absent sd) [''name'', ''description'', ''category''])))) \<and>
   ((\<forall>f \<in> {''name'', ''description'', ''category''}. \<not> field_absent sd f) \<and>
      (\<forall>c \<in> {''certificate'', ''license'', ''welfare'', ''other''}.
         js_get sd ''category'' \<noteq> JStr c) \<longrightarrow>
      validateServiceData sd = Inl (Error ''Invalid service category'')) \<and>
   ((\<forall>f \<in> {''name'', ''description'', ''category''}. \<not> field_absent sd f) \<and>
      (\<exists>c \<in> {''certificate'', ''license'', ''welfare'', ''other''}.
         js_get sd ''category'' = JStr c) \<longrightarrow>
      validateServiceData sd = Inr ()) \<and>
   (validateServiceData sd = Inl (Error ''Invalid service category'') \<longrightarrow>
      (\<forall>f \<in> {''name'', ''description'', ''category''}. \<not> field_absent sd f))"
proof -
  let ?missing = "filter (field_absent sd) required_service_fields"
  have m: "?missing \<noteq> [] \<longleftrightarrow> (\<exists>f \<in> set required_service_fields. field_absent sd f)"
    by (rule missing_nonempty)
  show ?thesis
  proof (cases "?missing = []")
    case True
    with m show ?thesis
      by (auto simp: validateServiceData_def validCategories_def required_service_fields_def)
  next
    case False
    with m show ?thesis
      by (auto simp: validateServiceData_def Let_def required_service_fields_def)
  qed
qed

theorem validateServiceData_cases_witness:
  "validateServiceData service_input_empty =
     Inl (Error ''Missing required fields: name, description, category'') \<and>
   validateServiceData service_input_bad_category = Inl (Error ''Invalid service category'') \<and>
   validateServiceData service_input_valid = Inr ()"
proof -
  have a: "\<exists>f \<in> {''name'', ''description'', ''category''}. field_absent service_input_empty f"
    by (auto simp: field_absent_def js_get_def service_input_empty_def)
  have a2: "filter (field_absent service_input_empty) [''name'', ''description'', ''category'']
      = [''name'', ''description'', ''category'']"
    by (simp add: field_absent_def js_get_def service_input_empty_def)
  have b: "\<forall>f \<in> {''name'', ''description'', ''category''}.
      \<not> field_absent service_input_bad_category f"
    by (simp add: field_absent_def js_get_def service_input_bad_category_def)
  have b2: "\<forall>c \<in> {''certificate'', ''license'', ''welfare'', ''other''}.
      js_get service_input_bad_category ''category'' \<noteq> JStr c"
    by (simp add: js_get_def service_input_bad_category_def)
  have c: "\<forall>f \<in> {''name'', ''description'', ''category''}.
      \<not> field_absent service_input_valid f"
    by (simp add: field_absent_def js_get_def service_input_valid_def)
  have c2: "\<exists>c \<in> {''certificate'', ''license'', ''welfare'', ''other''}.
      js_get service_input_valid ''category'' = JStr c"
    by (simp add: js_get_def service_input_valid_def)
  have r1: "validateServiceData service_input_empty =
     Inl (Error ''Missing required fields: name, description, category'')"
  proof -
    have "validateServiceData service_input_empty =
        Inl (Error (''Missing required fields: '' @ join '', ''
          (filter (field_absent service_input_empty) [''name'', ''description'', ''category''])))"
      by (rule validateServiceData_cases [of service_input_empty,
            THEN conjunct1, THEN mp, OF a])
    then show ?thesis unfolding a2 by simp
  qed
  have r2: "validateServiceData service_input_bad_category =
     Inl (Error ''Invalid service category'')"
    by (rule validateServiceData_cases [of service_input_bad_category,
          THEN conjunct2, THEN conjunct1, THEN mp, OF conjI [OF b b2]])
  have r3: "validateServiceData service_input_valid = Inr ()"
    by (rule validateServiceData_cases [of service_input_valid,
          THEN conjunct2, THEN conjunct2, THEN conjunct1, THEN mp, OF conjI [OF c c2]])
  from r1 r2 r3 show ?thesis by (intro conjI)
qed

text \<open>
  Claim C6. Reading a field as absent when \<open>!applicationData[field]\<close> holds: whenever one
  of \<open>serviceId\<close>, \<open>applicantName\<close>, \<open>applicantEmail\<close>, \<open>applicantPhone\<close> is absent, the
  application validator fails with \<open>Missing required fields:\<close> followed by every absent
  field (scenario B lists \<open>applicantName, applicantEmail, applicantPhone\<close>); when all four
  are present, an e-mail address that is not of the shape \<open>local@domain.tld\<close> fails with
  \<open>Invalid email format\<close>, and, for an address of that shape, a telephone string whose digits
  number fewer than 10 or more than 15 fails with the different message
  \<open>Invalid phone number format\<close>, and one with 10 to 15 digits passes. The validator is a
  function of its argument alone: it has no store to write to.
\<close>

theorem validateApplicationData_cases:
  "((\<exists>f \<in> {''serviceId'', ''applicantName'', ''applicantEmail'', ''applicantPhone''}.
        field_absent ad f) \<longrightarrow>
      validateApplicationData ad =
        Inl (Error (''Missing required fields: '' @
          join '', '' (filter (field_absent ad)
            [''serviceId'', ''applicantName'', ''applicantEmail'', ''applicantPhone''])))) \<and>
   ((\<forall>f \<in> {''serviceId'', ''applicantName'', ''applicantEmail'', ''applicantPhone''}.
        \<not> field_absent ad f) \<and>
      \<not> email_shape (js_to_string (js_get ad ''applicantEmail'')) \<longrightarrow>
      validateApplicationData ad = Inl (Error ''Invalid email format'')) \<and>
   ((\<forall>f \<in> {''serviceId'', ''applicantName'', ''applicantEmail'', ''applicantPhone''}.
        \<not> field_absent ad f) \<and>
      email_shape (js_to_string (js_get ad ''applicantEmail'')) \<and>
      js_get ad ''applicantPhone'' = JStr phone \<and>
      (length (filter is_digit phone) < 10 \<or> 15 < length (filter is_digit phone)) \<longrightarrow>
      validateApplicationData ad = Inl (Error ''Invalid phone number format'')) \<and>
   ((\<forall>f \<in> {''serviceId'', ''applicantName'', ''applicantEmail'', ''applicantPhone''}.
        \<not> field_absent ad f) \<and>
      email_shape (js_to_string (js_get ad ''applicantEmail'')) \<and>
      js_get ad ''applicantPhone'' = JStr phone \<and>
      10 \<le> length (filter is_digit phone) \<and> length (filter is_digit phone) \<le> 15 \<longrightarrow>
      validateApplicationData ad = Inr ())"
proof -
  let ?missing = "filter (field_absent ad) required_application_fields"
  have m: "?missing \<noteq> [] \<longleftrightarrow> (\<exists>f \<in> set required_application_fields. field_absent ad f)"
    by (rule missing_nonempty)
  show ?thesis
  proof (cases "?missing = []")
    case True
    with m show ?thesis
      by (auto simp: validateApplicationData_def required_application_fields_def
          emailRegex_shape phoneRegex_digits)
  next
    case False
    with m show ?thesis
      by (auto simp: validateApplicationData_def Let_def required_application_fields_def)
  qed
qed

theorem validateApplicationData_cases_witness:
  "validateApplicationData application_input_scenario_B =
     Inl (Error ''Missing required fields: applicantName, applicantEmail, applicantPhone'') \<and>
   validateApplicationData application_input_bad_email = Inl (Error ''Invalid email format'') \<and>
   validateApplicationData application_input_nbsp_email = Inl (Error ''Invalid email format'') \<and>
   validateApplicationData application_input_bad_phone =
     Inl (Error ''Invalid phone number format'') \<and>
   validateApplicationData application_input_valid = Inr ()"
proof -
  have e: "\<forall>f \<in> {''serviceId'', ''applicantName'', ''applicantEmail'', ''applicantPhone''}.
      \<not> field_absent application_input_nbsp_email f"
    by (simp add: field_absent_def js_get_def application_input_nbsp_email_def)
  have nbsp: "\<not> regex_test emailRegex (''as'' @ [CHR 0xA0] @ ''ha@example.com'')"
    by (simp add: emailRegex_def rx_plus_def not_space_at_def is_space_def)
  have e1: "js_to_string (js_get application_input_nbsp_email ''applicantEmail'') =
      ''as'' @ [CHR 0xA0] @ ''ha@example.com''"
    by (simp add: js_get_def application_input_nbsp_email_def)
  have e2:
    "\<not> email_shape (js_to_string (js_get application_input_nbsp_email ''applicantEmail''))"
    unfolding e1 emailRegex_shape [symmetric] by (rule nbsp)
  have r5: "validateApplicationData application_input_nbsp_email =
     Inl (Error ''Invalid email format'')"
    by (rule validateApplicationData_cases [of application_input_nbsp_email,
          THEN conjunct2, THEN conjunct1, THEN mp, OF conjI [OF e e2]])
  have a: "\<exists>f \<in> {''serviceId'', ''applicantName'', ''applicantEmail'', ''applicantPhone''}.
      field_absent application_input_scenario_B f"
    by (auto simp: field_absent_def js_get_def application_input_scenario_B_def)
  have a2: "filter (field_absent application_input_scenario_B)
       [''serviceId'', ''applicantName'', ''applicantEmail'', ''applicantPhone'']
      = [''applicantName'', ''applicantEmail'', ''applicantPhone'']"
    by (simp add: field_absent_def js_get_def application_input_scenario_B_def)
  have r1: "validateApplicationData application_input_scenario_B =
     Inl (Error ''Missing required fields: applicantName, applicantEmail, applicantPhone'')"
  proof -
    have "validateApplicationData application_input_scenario_B =
        Inl (Error (''Missing required fields: '' @ join '', ''
          (filter (field_absent application_input_scenario_B)
            [''serviceId'', ''applicantName'', ''applicantEmail'', ''applicantPhone''])))"
      by (rule validateApplicationData_cases [of application_input_scenario_B,
            THEN conjunct1, THEN mp, OF a])
    then show ?thesis unfolding a2 by simp
  qed
  have b: "\<forall>f \<in> {''serviceId'', ''applicantName'', ''applicantEmail'', ''applicantPhone''}.
      \<not> field_absent application_input_bad_email f"
    by (simp add: field_absent_def js_get_def application_input_bad_email_def)
  have bad: "\<not> regex_test emailRegex ''asha.example.com''"
    by code_simp
  have b1: "js_to_string (js_get application_input_bad_email ''applicantEmail'') =
      ''asha.example.com''"
    by (simp add: js_get_def application_input_bad_email_def)
  have b2:
    "\<not> email_shape (js_to_string (js_get application_input_bad_email ''applicantEmail''))"
    unfolding b1 emailRegex_shape [symmetric] by (rule bad)
  have r2: "validateApplicationData application_input_bad_email =
     Inl (Error ''Invalid email format'')"
    by (rule validateApplicationData_cases [of application_input_bad_email,
          THEN conjunct2, THEN conjunct1, THEN mp, OF conjI [OF b b2]])
  have ok: "regex_test emailRegex ''asha@example.com''"
    by code_simp
  have c: "\<forall>f \<in> {''serviceId'', ''applicantName'', ''applicantEmail'', ''applicantPhone''}.
      \<not> field_absent application_input_bad_phone f"
    by (simp add: field_absent_def js_get_def application_input_bad_phone_def)
  have c1: "js_to_string (js_get application_input_bad_phone ''applicantEmail'') =
      ''asha@example.com''"
    by (simp add: js_get_def application_input_bad_phone_def)
  have c2:
    "email_shape (js_to_string (js_get application_input_bad_phone ''applicantEmail''))"
    unfolding c1 emailRegex_shape [symmetric] by (rule ok)
  have c3: "js_get application_input_bad_phone ''applicantPhone'' = JStr ''98765-432''"
    by (simp add: js_get_def application_input_bad_phone_def)
  have c4: "length (filter is_digit ''98765-432'') < 10"
    by (simp add: is_digit_def)
  have r3: "validateApplicationData application_input_bad_phone =
     Inl (Error ''Invalid phone number format'')"
    by (rule validateApplicationData_cases [of application_input_bad_phone "''98765-432''",
          THEN conjunct2, THEN conjunct2, THEN conjunct1, THEN mp,
          OF conjI [OF c conjI [OF c2 conjI [OF c3 disjI1 [OF c4]]]]])
  have d: "\<forall>f \<in> {''serviceId'', ''applicantName'', ''applicantEmail'', ''applicantPhone''}.
      \<not> field_absent application_input_valid f"
    by (simp add: field_absent_def js_get_def application_input_valid_def)
  have d1: "js_to_string (js_get application_input_valid ''applicantEmail'') =
      ''asha@example.com''"
    by (simp add: js_get_def application_input_valid_def)
  have d2:
    "email_shape (js_to_string (js_get application_input_valid ''applicantEmail''))"
    unfolding d1 emailRegex_shape [symmetric] by (rule ok)
  have d3: "js_get application_input_valid ''applicantPhone'' = JStr ''+91 98765-43210''"
    by (simp add: js_get_def application_input_valid_def)
  have d4: "10 \<le> length (filter is_digit ''+91 98765-43210'') \<and>
      length (filter is_digit ''+91 98765-43210'') \<le> 15"
    by (simp add: is_digit_def)
  have r4: "validateApplicationData application_input_valid = Inr ()"
    by (rule validateApplicationData_cases [of application_input_valid "''+91 98765-43210''",
          THEN conjunct2, THEN conjunct2, THEN conjunct2, THEN mp,
          OF conjI [OF d conjI [OF d2 conjI [OF d3 d4]]]])
  from r1 r2 r5 r3 r4 show ?thesis by (intro conjI)
qed

subsection \<open>Estimated completion date\<close>

text \<open>
  The year of a time value is the one the language defines: \<open>YearFromTime(t)\<close> is the
  largest year that begins at or before \<open>t\<close>.
\<close>

lemma div_step:
  fixes x k :: int
  assumes "1 < k"
  shows "(x + 1) div k = x div k + (if (x + 1) mod k = 0 then 1 else 0)"
proof -
  define q where "q = x div k"
  define r where "r = x mod k"
  have x: "x = k * q + r" by (simp add: q_def r_def)
  from assms have r: "0 \<le> r" "r < k" by (simp_all add: r_def)
  show ?thesis
  proof (cases "r = k - 1")
    case True
    with x have e: "x + 1 = k * (q + 1) + 0" by (simp add: algebra_simps)
    from assms have "(x + 1) div k = q + 1"
      by (intro int_div_pos_eq [OF e]) simp_all
    moreover from assms have "(x + 1) mod k = 0"
      by (intro int_mod_pos_eq [OF e]) simp_all
    ultimately show ?thesis by (simp add: q_def)
  next
    case False
    with r have r1: "0 \<le> r + 1" "r + 1 < k" by simp_all
    from x have e: "x + 1 = k * q + (r + 1)" by simp
    have "(x + 1) div k = q"
      by (rule int_div_pos_eq [OF e r1])
    moreover have "(x + 1) mod k = r + 1"
      by (rule int_mod_pos_eq [OF e r1])
    ultimately show ?thesis using r by (simp add: q_def)
  qed
qed

lemma DayFromYear_next: "DayFromYear (y + 1) = DayFromYear y + DaysInYear y"
proof -
  have m4: "(y - 1969 + 1) mod 4 = y mod 4"
    using mod_mult_self1 [of y "- 492" 4] by simp
  have m100: "(y - 1901 + 1) mod 100 = y mod 100"
    using mod_mult_self1 [of y "- 19" 100] by simp
  have m400: "(y - 1601 + 1) mod 400 = y mod 400"
    using mod_mult_self1 [of y "- 4" 400] by simp
  have a: "(y + 1 - 1969) div 4 = (y - 1969) div 4 + (if y mod 4 = 0 then 1 else 0)"
    using div_step [of 4 "y - 1969"] unfolding m4 by (simp add: algebra_simps)
  have b: "(y + 1 - 1901) div 100 = (y - 1901) div 100 + (if y mod 100 = 0 then 1 else 0)"
    using div_step [of 100 "y - 1901"] unfolding m100 by (simp add: algebra_simps)
  have c: "(y + 1 - 1601) div 400 = (y - 1601) div 400 + (if y mod 400 = 0 then 1 else 0)"
    using div_step [of 400 "y - 1601"] unfolding m400 by (simp add: algebra_simps)
  have "(4::int) dvd 100" "(100::int) dvd 400" by simp_all
  then have d: "y mod 100 = 0 \<Longrightarrow> y mod 4 = 0" "y mod 400 = 0 \<Longrightarrow> y mod 100 = 0"
    by (auto simp: mod_eq_0_iff_dvd elim: dvd_trans)
  show ?thesis
    unfolding DayFromYear_def DaysInYear_def a b c using d by auto
qed

lemma div_bounds:
  fixes x k :: int
  assumes "0 < k"
  shows "k * (x div k) \<le> x" and "x < k * (x div k) + k"
proof -
  have "x = k * (x div k) + x mod k" by simp
  moreover from assms have "0 \<le> x mod k" "x mod k < k" by simp_all
  ultimately show "k * (x div k) \<le> x" and "x < k * (x div k) + k" by linarith+
qed

lemma DayFromYear_low: "400 * DayFromYear y \<le> 146097 * y - 287810501"
proof -
  define a where "a = (y - 1969) div 4"
  define b where "b = (y - 1901) div 100"
  define c where "c = (y - 1601) div 400"
  have fa: "4 * a \<le> y - 1969"
    unfolding a_def by (rule div_bounds) simp
  have fb: "y - 1901 < 100 * b + 100"
    unfolding b_def by (rule div_bounds) simp
  have fc: "400 * c \<le> y - 1601"
    unfolding c_def by (rule div_bounds) simp
  have "DayFromYear y = 365 * y - 719050 + a - b + c"
    by (simp add: DayFromYear_def a_def b_def c_def)
  with fa fb fc show ?thesis
    by linarith
qed

lemma DayFromYear_high: "146097 * y - 287811596 \<le> 400 * DayFromYear y"
proof -
  define a where "a = (y - 1969) div 4"
  define b where "b = (y - 1901) div 100"
  define c where "c = (y - 1601) div 400"
  have fa: "y - 1969 < 4 * a + 4"
    unfolding a_def by (rule div_bounds) simp
  have fb: "100 * b \<le> y - 1901"
    unfolding b_def by (rule div_bounds) simp
  have fc: "y - 1601 < 400 * c + 400"
    unfolding c_def by (rule div_bounds) simp
  have "DayFromYear y = 365 * y - 719050 + a - b + c"
    by (simp add: DayFromYear_def a_def b_def c_def)
  with fa fb fc show ?thesis
    by linarith
qed

lemma DaysInYear_pos: "0 < DaysInYear y"
  by (simp add: DaysInYear_def)

lemma DayFromYear_mono: "y \<le> z \<Longrightarrow> DayFromYear y \<le> DayFromYear z"
proof (induction "nat (z - y)" arbitrary: z)
  case 0
  then show ?case by simp
next
  case (Suc n)
  then have "n = nat ((z - 1) - y)" "y \<le> z - 1" by linarith+
  then have "DayFromYear y \<le> DayFromYear (z - 1)" by (rule Suc.hyps(1))
  also have "\<dots> \<le> DayFromYear z"
    using DayFromYear_next [of "z - 1"] DaysInYear_pos [of "z - 1"] by simp
  finally show ?case .
qed

lemma YearFromTime_bounds:
  "DayFromYear (YearFromTime t) \<le> Day t \<and> Day t < DayFromYear (YearFromTime t + 1)"
proof -
  define d where "d = Day t"
  define y where "y = 1970 + (400 * d) div 146097"
  have q1: "146097 * (y - 1970) \<le> 400 * d"
    unfolding y_def using div_bounds(1) [of 146097 "400 * d"] by simp
  have q2: "400 * d < 146097 * (y - 1970) + 146097"
    unfolding y_def using div_bounds(2) [of 146097 "400 * d"] by simp
  have low: "DayFromYear (y - 1) \<le> d"
    using DayFromYear_low [of "y - 1"] q1 by (simp add: algebra_simps)
  have high: "d < DayFromYear (y + 2)"
    using DayFromYear_high [of "y + 2"] q2 by (simp add: algebra_simps)
  have Y: "YearFromTime t =
      (if DayFromYear (y + 1) \<le> d then y + 1 else if DayFromYear y \<le> d then y else y - 1)"
    by (simp add: YearFromTime_def Let_def d_def y_def)
  show ?thesis
    unfolding d_def [symmetric] Y using low high by (simp add: add.commute)
qed

lemma TimeFromYear_le: "TimeFromYear y \<le> t \<longleftrightarrow> DayFromYear y \<le> Day t"
proof -
  have "86400000 * (t div 86400000) \<le> t" "t < 86400000 * (t div 86400000) + 86400000"
    by (rule div_bounds, simp)+
  then show ?thesis
    unfolding TimeFromYear_def Day_def msPerDay_def by linarith
qed

lemma YearFromTime_largest:
  "TimeFromYear (YearFromTime t) \<le> t \<and> (\<forall>y. TimeFromYear y \<le> t \<longrightarrow> y \<le> YearFromTime t)"
proof (intro conjI allI impI)
  show "TimeFromYear (YearFromTime t) \<le> t"
    using YearFromTime_bounds [of t] by (simp add: TimeFromYear_le)
next
  fix y assume "TimeFromYear y \<le> t"
  then have le: "DayFromYear y \<le> Day t"
    by (simp add: TimeFromYear_le)
  show "y \<le> YearFromTime t"
  proof (rule ccontr)
    assume "\<not> y \<le> YearFromTime t"
    then have "YearFromTime t + 1 \<le> y" by simp
    then have "DayFromYear (YearFromTime t + 1) \<le> DayFromYear y"
      by (rule DayFromYear_mono)
    with le YearFromTime_bounds [of t] show False by linarith
  qed
qed

lemma YearFromTime_unique:
  assumes "DayFromYear y \<le> Day t" and "Day t < DayFromYear (y + 1)"
  shows "YearFromTime t = y"
proof (rule antisym)
  show "YearFromTime t \<le> y"
  proof (rule ccontr)
    assume "\<not> YearFromTime t \<le> y"
    then have "y + 1 \<le> YearFromTime t" by simp
    then have "DayFromYear (y + 1) \<le> DayFromYear (YearFromTime t)"
      by (rule DayFromYear_mono)
    with assms(2) YearFromTime_bounds [of t] show False by linarith
  qed
  show "y \<le> YearFromTime t"
  proof (rule ccontr)
    assume "\<not> y \<le> YearFromTime t"
    then have "YearFromTime t + 1 \<le> y" by simp
    then have "DayFromYear (YearFromTime t + 1) \<le> DayFromYear y"
      by (rule DayFromYear_mono)
    with assms(1) YearFromTime_bounds [of t] show False by linarith
  qed
qed

text \<open>
  The day within the year, the month and the day of the month are in their ranges, and the
  month is the one whose days include the day within the year.
\<close>

lemma DayWithinYear_range: "0 \<le> DayWithinYear t \<and> DayWithinYear t < DaysInYear (YearFromTime t)"
  using YearFromTime_bounds [of t] DayFromYear_next [of "YearFromTime t"]
  by (simp add: DayWithinYear_def)

lemma MonthFromTime_range: "0 \<le> MonthFromTime t \<and> MonthFromTime t \<le> 11"
  by (simp add: MonthFromTime_def Let_def)

lemma MonthFromTime_values:
  "MonthFromTime t \<in> {0, 1, 2, 3, 4, 5, 6, 7, 8, 9, 10, 11}"
  by (simp add: MonthFromTime_def Let_def)

lemma MonthFromTime_cases:
  "(MonthFromTime t = 0 \<and> DayWithinYear t < 31) \<or>
   (MonthFromTime t = 1 \<and> 31 \<le> DayWithinYear t \<and> DayWithinYear t < 59 + InLeapYear t) \<or>
   (MonthFromTime t = 2 \<and> 59 + InLeapYear t \<le> DayWithinYear t \<and>
      DayWithinYear t < 90 + InLeapYear t) \<or>
   (MonthFromTime t = 3 \<and> 90 + InLeapYear t \<le> DayWithinYear t \<and>
      DayWithinYear t < 120 + InLeapYear t) \<or>
   (MonthFromTime t = 4 \<and> 120 + InLeapYear t \<le> DayWithinYear t \<and>
      DayWithinYear t < 151 + InLeapYear t) \<or>
   (MonthFromTime t = 5 \<and> 151 + InLeapYear t \<le> DayWithinYear t \<and>
      DayWithinYear t < 181 + InLeapYear t) \<or>
   (MonthFromTime t = 6 \<and> 181 + InLeapYear t \<le> DayWithinYear t \<and>
      DayWithinYear t < 212 + InLeapYear t) \<or>
   (MonthFromTime t = 7 \<and> 212 + InLeapYear t \<le> DayWithinYear t \<and>
      DayWithinYear t < 243 + InLeapYear t) \<or>
   (MonthFromTime t = 8 \<and> 243 + InLeapYear t \<le> DayWithinYear t \<and>
      DayWithinYear t < 273 + InLeapYear t) \<or>
   (MonthFromTime t = 9 \<and> 273 + InLeapYear t \<le> DayWithinYear t \<and>
      DayWithinYear t < 304 + InLeapYear t) \<or>
   (MonthFromTime t = 10 \<and> 304 + InLeapYear t \<le> DayWithinYear t \<and>
      DayWithinYear t < 334 + InLeapYear t) \<or>
   (MonthFromTime t = 11 \<and> 334 + InLeapYear t \<le> DayWithinYear t)"
proof -
  define d where "d = DayWithinYear t"
  define l where "l = InLeapYear t"
  have "l = 0 \<or> l = 1"
    by (simp add: l_def InLeapYear_def)
  then show ?thesis
    unfolding MonthFromTime_def Let_def d_def [symmetric] l_def [symmetric]
    by (elim disjE) simp_all
qed

lemma DateFromTime_table:
  "DateFromTime t =
     (if MonthFromTime t = 0 then DayWithinYear t + 1
      else if MonthFromTime t = 1 then DayWithinYear t - 30
      else if MonthFromTime t = 2 then DayWithinYear t - 58 - InLeapYear t
      else if MonthFromTime t = 3 then DayWithinYear t - 89 - InLeapYear t
      else if MonthFromTime t = 4 then DayWithinYear t - 119 - InLeapYear t
      else if MonthFromTime t = 5 then DayWithinYear t - 150 - InLeapYear t
      else if MonthFromTime t = 6 then DayWithinYear t - 180 - InLeapYear t
      else if MonthFromTime t = 7 then DayWithinYear t - 211 - InLeapYear t
      else if MonthFromTime t = 8 then DayWithinYear t - 242 - InLeapYear t
      else if MonthFromTime t = 9 then DayWithinYear t - 272 - InLeapYear t
      else if MonthFromTime t = 10 then DayWithinYear t - 303 - InLeapYear t
      else DayWithinYear t - 333 - InLeapYear t)"
  by (simp only: DateFromTime_def Let_def)

lemma DateFromTime_range: "1 \<le> DateFromTime t \<and> DateFromTime t \<le> 31"
proof -
  have l: "DaysInYear (YearFromTime t) = 365 + InLeapYear t"
    by (simp add: InLeapYear_def DaysInYear_def)
  have "InLeapYear t = 0 \<or> InLeapYear t = 1"
    by (simp add: InLeapYear_def)
  with DayWithinYear_range [of t] l
  have r: "0 \<le> DayWithinYear t" "DayWithinYear t < 366" "InLeapYear t \<le> 1"
    "0 \<le> InLeapYear t" "DayWithinYear t < 365 + InLeapYear t"
    by auto
  from MonthFromTime_cases [of t] show ?thesis
    unfolding DateFromTime_table using r
    by (elim disjE conjE) simp_all
qed

text \<open>
  \<open>MakeDay\<close> asks for a time value whose year is \<open>ym\<close>, whose month is \<open>mn\<close> and whose day of
  the month is 1: the beginning of the day \<open>first_day_of_month ym mn\<close> is one.
\<close>

lemma first_day_of_month_finds:
  assumes "mn \<in> {0, 1, 2, 3, 4, 5, 6, 7, 8, 9, 10, 11}"
  shows "YearFromTime (first_day_of_month ym mn * msPerDay) = ym \<and>
         MonthFromTime (first_day_of_month ym mn * msPerDay) = mn \<and>
         DateFromTime (first_day_of_month ym mn * msPerDay) = 1"
proof -
  define t where "t = first_day_of_month ym mn * msPerDay"
  define k where "k = first_day_of_month ym mn - DayFromYear ym"
  have day: "Day t = first_day_of_month ym mn"
    by (simp add: t_def Day_def msPerDay_def)
  have k: "0 \<le> k" "k < 365"
    using assms unfolding k_def first_day_of_month_def days_before_month_def
    by (elim insertE emptyE; simp)+
  have "DaysInYear ym = 365 \<or> DaysInYear ym = 366"
    by (simp add: DaysInYear_def)
  with k have "DayFromYear ym \<le> Day t" "Day t < DayFromYear (ym + 1)"
    unfolding day DayFromYear_next k_def by auto
  then have year: "YearFromTime t = ym"
    by (rule YearFromTime_unique)
  have within: "DayWithinYear t = k"
    by (simp add: DayWithinYear_def year day k_def)
  have leap: "InLeapYear t = (if DaysInYear ym = 366 then 1 else 0)"
    by (simp add: InLeapYear_def year)
  have month: "MonthFromTime t = mn"
    using assms unfolding MonthFromTime_def Let_def within leap k_def first_day_of_month_def
      days_before_month_def
    by (elim insertE emptyE; simp)
  have "DateFromTime t = 1"
    using assms unfolding DateFromTime_table month within leap k_def first_day_of_month_def
      days_before_month_def
    by (elim insertE emptyE; simp)
  with year month show ?thesis
    by (simp only: t_def simp_thms)
qed

text \<open>
  \<open>setDate\<close> on the day of the month plus \<open>n\<close> moves the local time by \<open>n\<close> days: the month
  and the year of the date are those that \<open>getDate\<close> counted the day of the month in.
\<close>

lemma first_day_plus_date:
  "first_day_of_month (YearFromTime t) (MonthFromTime t) + DateFromTime t - 1 = Day t"
proof -
  define m where "m = MonthFromTime t"
  have D: "DateFromTime t =
     (let d = DayWithinYear t; l = InLeapYear t
      in if m = 0 then d + 1
         else if m = 1 then d - 30
         else if m = 2 then d - 58 - l
         else if m = 3 then d - 89 - l
         else if m = 4 then d - 119 - l
         else if m = 5 then d - 150 - l
         else if m = 6 then d - 180 - l
         else if m = 7 then d - 211 - l
         else if m = 8 then d - 242 - l
         else if m = 9 then d - 272 - l
         else if m = 10 then d - 303 - l
         else d - 333 - l)"
    by (simp only: DateFromTime_def Let_def m_def)
  from MonthFromTime_values [of t] have "m \<in> {0, 1, 2, 3, 4, 5, 6, 7, 8, 9, 10, 11}"
    by (simp only: m_def)
  then have "first_day_of_month (YearFromTime t) m + DateFromTime t - 1 = Day t"
    unfolding D
    by (elim insertE emptyE)
      (simp_all add: first_day_of_month_def days_before_month_def InLeapYear_def
        DayWithinYear_def Let_def)
  then show ?thesis by (simp only: m_def)
qed

lemma MakeDay_current_month:
  "MakeDay (YearFromTime t) (MonthFromTime t) (DateFromTime t + n) = Day t + n"
proof -
  from MonthFromTime_range [of t]
  have "MonthFromTime t div 12 = 0" "MonthFromTime t mod 12 = MonthFromTime t"
    by simp_all
  then have "MakeDay (YearFromTime t) (MonthFromTime t) (DateFromTime t + n) =
      first_day_of_month (YearFromTime t) (MonthFromTime t) + (DateFromTime t + n) - 1"
    by (simp add: MakeDay_def Let_def)
  with first_day_plus_date [of t] show ?thesis by linarith
qed

lemma MakeDate_Day: "MakeDate (Day t + n) (TimeWithinDay t) = t + n * msPerDay"
  by (simp add: MakeDate_def Day_def TimeWithinDay_def algebra_simps)

lemma setDate_getDate:
  "setDate h t (Num (getDate h t + n)) = TimeClip (UTC h (LocalTime h t + n * msPerDay))"
  by (simp add: setDate_def getDate_def Let_def MakeDay_current_month MakeDate_Day)

lemma calculateEstimatedDate_Num:
  assumes "parseProcessingTime h processingTime = Num n"
  shows "calculateEstimatedDate h now processingTime =
     TimeClip (UTC h (LocalTime h now + n * msPerDay))"
  using assms by (simp add: calculateEstimatedDate_def Let_def setDate_getDate)

lemma calculateEstimatedDate_PosInfinity:
  assumes "parseProcessingTime h processingTime = PosInfinity"
  shows "calculateEstimatedDate h now processingTime = None"
  using assms by (simp add: calculateEstimatedDate_def Let_def setDate_def)




text \<open>On a digit, the code unit less 48 is the digit that the character writes.\<close>

lemma digit_value_digit: "is_digit c \<Longrightarrow> digit_value c = digit_of c"
  by (auto simp: is_digit_def digit_value_def digit_of_def digit_table_def)

lemma decimal_value_Cons:
  "decimal_value (c # cs) = digit_of c * 10 ^ length cs + decimal_value cs"
  by (simp add: decimal_value_def sum.lessThan_Suc_shift del: sum.lessThan_Suc)

lemma foldl_decimal:
  "list_all is_digit ds \<Longrightarrow>
   foldl (\<lambda>n c. 10 * n + digit_value c) a ds = a * 10 ^ length ds + decimal_value ds"
proof (induction ds arbitrary: a)
  case Nil
  show ?case by (simp add: decimal_value_def)
next
  case (Cons c cs)
  then have "is_digit c" "list_all is_digit cs" by simp_all
  with Cons.IH [of "10 * a + digit_value c"] show ?case
    by (simp add: decimal_value_Cons digit_value_digit algebra_simps)
qed

lemma mathInt_decimal: "list_all is_digit ds \<Longrightarrow> mathInt ds = decimal_value ds"
  by (simp add: mathInt_def foldl_decimal)





lemma bit_length_eq: "2 ^ k \<le> n \<Longrightarrow> n < 2 ^ Suc k \<Longrightarrow> bit_length n = Suc k"
proof (induction k arbitrary: n)
  case 0
  then have "n = 1" by simp
  then show ?case by (simp add: bit_length.simps)
next
  case (Suc k)
  then have "2 ^ k \<le> n div 2" "n div 2 < 2 ^ Suc k" "n \<noteq> 0"
    by auto
  then have "bit_length (n div 2) = Suc k" "n \<noteq> 0"
    by (simp_all add: Suc.IH)
  then show ?case
    by (subst bit_length.simps) simp
qed

text \<open>
  When the implementation reads every digit, \<open>parseInt\<close> is the decimal value of the run,
  rounded.
\<close>

lemma parseInt_rounds:
  assumes "list_all is_digit ds" and "\<not> truncates_long_integers h"
  shows "parseInt h ds = to_double (decimal_value ds)"
  using assms by (simp add: parseInt_def Let_def mathInt_decimal)

text \<open>From \<open>2^1024\<close> on, the number is \<open>Infinity\<close>.\<close>

lemma to_double_overflow:
  assumes "2 ^ 1024 \<le> n"
  shows "to_double n = PosInfinity"
proof -
  from assms have "1 \<le> n"
    by (meson one_le_numeral one_le_power order_trans)
  then obtain k where k: "2 ^ k \<le> n" "n < 2 ^ (k + 1)"
    using ex_power_ivl1 [of 2 n] by auto
  then have b: "bit_length n = Suc k"
    by (intro bit_length_eq) simp_all
  from assms k(2) have "(2::nat) ^ 1024 < 2 ^ (k + 1)"
    by (rule le_less_trans)
  then have "1024 < k + 1"
    by (simp only: power_strict_increasing_iff rel_simps)
  then have k1024: "1024 \<le> k" by simp
  define e where "e = k - 52"
  have ke: "k = 52 + e" using k1024 by (simp add: e_def)
  define q where "q = n div 2 ^ e"
  define q' where "q' = (if 2 ^ e < 2 * (n mod 2 ^ e) \<or> (2 * (n mod 2 ^ e) = 2 ^ e \<and> odd q)
                         then q + 1 else q)"
  have "2 ^ 52 * 2 ^ e \<le> n"
    using k(1) by (simp add: ke power_add)
  then have "2 ^ 52 \<le> q"
    unfolding q_def by (simp add: less_eq_div_iff_mult_less_eq)
  moreover have "q \<le> q'" by (simp add: q'_def)
  ultimately have "2 ^ 52 \<le> q'" by (rule order_trans)
  then have "2 ^ 52 * 2 ^ e \<le> q' * 2 ^ e"
    by (rule mult_le_mono1)
  moreover have "(2::nat) ^ 1024 \<le> 2 ^ 52 * 2 ^ e"
  proof -
    have "(2::nat) ^ 1024 \<le> 2 ^ (52 + e)"
      using k1024 unfolding ke by (intro power_increasing) simp_all
    then show ?thesis by (simp only: power_add)
  qed
  ultimately have big: "2 ^ 1024 \<le> q' * 2 ^ e"
    by (rule order_trans [rotated])
  have "(2::nat) ^ 53 \<le> 2 ^ 1024" by simp
  with assms have small: "\<not> n < 2 ^ 53" by linarith
  have be: "bit_length n - 53 = e"
    by (simp add: b e_def)
  have "to_double n =
      (if 2 ^ 1024 \<le> q' * 2 ^ e then PosInfinity else Num (int (q' * 2 ^ e)))"
    unfolding to_double_def Let_def be q'_def q_def using small by (simp only: if_False)
  with big show ?thesis
    by (simp only: if_True)
qed

text \<open>
  The instant \<open>now0\<close> is 03:43:20 on 15 November 2023 in Indian Standard Time; fifteen days on
  it is 30 November, and thirty days on, beyond the end of the month, 15 December.
\<close>

lemma calendar_examples:
  "YearFromTime (LocalTime host_ist now0) = 2023 \<and>
   MonthFromTime (LocalTime host_ist now0) = 10 \<and>
   getDate host_ist now0 = 15 \<and>
   MonthFromTime (LocalTime host_ist (now0 + 15 * msPerDay)) = 10 \<and>
   getDate host_ist (now0 + 15 * msPerDay) = 30 \<and>
   MonthFromTime (LocalTime host_ist (now0 + 30 * msPerDay)) = 11 \<and>
   getDate host_ist (now0 + 30 * msPerDay) = 15"
proof -
  have d0: "Day (LocalTime host_ist now0) = 19676"
    and d15: "Day (LocalTime host_ist (now0 + 15 * msPerDay)) = 19691"
    and d30: "Day (LocalTime host_ist (now0 + 30 * msPerDay)) = 19706"
    by (simp_all add: Day_def LocalTime_def host_ist_def now0_def msPerDay_def)
  have y: "DayFromYear 2023 = 19358" "DayFromYear 2024 = 19723" "DaysInYear 2023 = 365"
    by (simp_all add: DayFromYear_def DaysInYear_def)
  have y0: "YearFromTime (LocalTime host_ist now0) = 2023"
    and y15: "YearFromTime (LocalTime host_ist (now0 + 15 * msPerDay)) = 2023"
    and y30: "YearFromTime (LocalTime host_ist (now0 + 30 * msPerDay)) = 2023"
    by (rule YearFromTime_unique; simp add: d0 d15 d30 y)+
  have m0: "MonthFromTime (LocalTime host_ist now0) = 10"
    and m15: "MonthFromTime (LocalTime host_ist (now0 + 15 * msPerDay)) = 10"
    and m30: "MonthFromTime (LocalTime host_ist (now0 + 30 * msPerDay)) = 11"
    by (simp_all add: MonthFromTime_def DayWithinYear_def InLeapYear_def Let_def
        d0 d15 d30 y0 y15 y30 y)
  have "getDate host_ist now0 = 15"
    and "getDate host_ist (now0 + 15 * msPerDay) = 30"
    and "getDate host_ist (now0 + 30 * msPerDay) = 15"
    by (simp_all add: getDate_def DateFromTime_table DayWithinYear_def InLeapYear_def
        d0 d15 d30 y0 y15 y30 m0 m15 m30 y)
  with y0 m0 m15 m30 show ?thesis by simp
qed

text \<open>
  Where the offset of the time zone changes between the two instants, the date returned is
  the same local time of day that many days on, and not that many times 24 hours on: on the
  host whose clocks go forward at \<open>100000000\<close>, one day from \<open>50000000\<close> is 23 hours later.
\<close>

lemma calculateEstimatedDate_offset_change:
  "calculateEstimatedDate host_dst 50000000 (Some ''1 day'') = Some 132800000 \<and>
   132800000 - 50000000 = (82800000::int)"
proof -
  have "parseProcessingTime host_dst (Some ''1 day'') = Num 1"
    by (simp add: parseProcessingTime_def is_digit_def parseInt_def mathInt_def
        digit_value_def to_double_def host_dst_def)
  then have "calculateEstimatedDate host_dst 50000000 (Some ''1 day'') =
      TimeClip (UTC host_dst (LocalTime host_dst 50000000 + 1 * msPerDay))"
    by (rule calculateEstimatedDate_Num)
  then show ?thesis
    by (simp add: TimeClip_def UTC_def LocalTime_def host_dst_def msPerDay_def)
qed




subsection \<open>Flushing\<close>

text \<open>
  After a failed commit the buffer holds the entries that arrived during the attempt, each
  twice, and nothing of the batch that was being flushed; the store is as before.
\<close>

lemma flushLogs_failure:
  assumes "has_db L" and "logBuffer L \<noteq> []"
  shows "logBuffer (flushLogs CommitFails arrivals L) = arrivals @ arrivals \<and>
         stored (flushLogs CommitFails arrivals L) = stored L"
  using assms
  by (simp add: flushLogs_def flushLogs_start_def flushLogs_finish_def Let_def)

text \<open>
  Claim C1. The comment in the catch block says \<open>Put logs back in buffer for retry\<close>, but
  the statement prepends the current buffer to itself, not the failed batch. With
  \<open>entry1\<close> buffered and a commit that fails, the buffer is empty afterwards and the store
  does not hold \<open>entry1\<close> either: the entry is lost. When \<open>entry2\<close> arrives during the failed
  attempt, the buffer afterwards is \<open>[entry2, entry2]\<close>: the arrival is duplicated, and
  \<open>entry1\<close> is still lost.
\<close>

theorem flushLogs_failure_loses_batch:
  "logBuffer logger_one_buffered = [entry1] \<and>
   logBuffer (flushLogs CommitFails [] logger_one_buffered) = [] \<and>
   stored (flushLogs CommitFails [] logger_one_buffered) = [] \<and>
   logBuffer (flushLogs CommitFails [entry2] logger_one_buffered) = [entry2, entry2] \<and>
   stored (flushLogs CommitFails [entry2] logger_one_buffered) = []"
  by (simp add: flushLogs_def flushLogs_start_def flushLogs_finish_def Let_def
      logger_one_buffered_def new_logger_def)

subsection \<open>Recording\<close>

text \<open>
  The claim C5 as the specification states it fails on a logger whose console is disabled:
  with persistence enabled and an empty buffer below the capacity, \<open>log\<close> appends the entry
  and does not call the console.
\<close>

theorem log_console_disabled_counterexample:
  "enableFirestore logger_console_off \<and> has_db logger_console_off \<and>
   length (logBuffer logger_console_off) + 1 < maxBufferSize logger_console_off \<and>
   length (logBuffer (logger_log rt0 logger_console_off ''error'' ''db down''
      (JObj [(''error'', JStr ''timeout'')]) [])) = 1 \<and>
   console (logger_log rt0 logger_console_off ''error'' ''db down''
      (JObj [(''error'', JStr ''timeout'')]) []) = []"
  by (simp add: logger_log_def logger_console_off_def new_logger_def Let_def)

text \<open>
  Claim C5, amended. For every call of \<open>log\<close> with persistence enabled there is one entry,
  with the level in upper case and the message of the call, such that: the console is
  called exactly once, with this entry, when the console is enabled, and not at all when it
  is disabled; if the buffer held fewer than \<open>maxBufferSize - 1\<close> entries, the entry is
  appended to the buffer and no flush is started; and if the buffer with the entry reaches
  \<open>maxBufferSize\<close>, exactly one flush is started, which takes the whole buffer with the
  entry and leaves the buffer empty.
\<close>

theorem log_buffer_and_flush:
  assumes "enableFirestore L" and "has_db L"
  shows "\<exists>entry. log_level entry = toUpperCase level \<and> log_message entry = message \<and>
     console (logger_log rt L level message data context) =
       console L @ (if enableConsole L then [ConsoleEntry entry] else []) \<and>
     (length (logBuffer L) + 1 < maxBufferSize L \<longrightarrow>
        logBuffer (logger_log rt L level message data context) = logBuffer L @ [entry] \<and>
        in_flight (logger_log rt L level message data context) = in_flight L) \<and>
     (maxBufferSize L \<le> length (logBuffer L) + 1 \<longrightarrow>
        in_flight (logger_log rt L level message data context) =
          in_flight L @ [logBuffer L @ [entry]] \<and>
        logBuffer (logger_log rt L level message data context) = [])"
proof (intro exI [of _ "make_entry rt L level message data context"] conjI impI)
  show "log_level (make_entry rt L level message data context) = toUpperCase level"
    by (simp add: make_entry_def)
  show "log_message (make_entry rt L level message data context) = message"
    by (simp add: make_entry_def)
  show "console (logger_log rt L level message data context) =
       console L @ (if enableConsole L
                    then [ConsoleEntry (make_entry rt L level message data context)] else [])"
    using assms
    by (simp add: logger_log_def logToConsole_def flushLogs_start_def Let_def)
next
  assume "length (logBuffer L) + 1 < maxBufferSize L"
  with assms show "logBuffer (logger_log rt L level message data context) =
      logBuffer L @ [make_entry rt L level message data context]"
    and "in_flight (logger_log rt L level message data context) = in_flight L"
    by (simp_all add: logger_log_def logToConsole_def Let_def)
next
  assume "maxBufferSize L \<le> length (logBuffer L) + 1"
  with assms show "in_flight (logger_log rt L level message data context) =
      in_flight L @ [logBuffer L @ [make_entry rt L level message data context]]"
    and "logBuffer (logger_log rt L level message data context) = []"
    by (simp_all add: logger_log_def logToConsole_def flushLogs_start_def Let_def)
qed

theorem log_buffer_and_flush_witness:
  "(\<exists>entry. log_level entry = ''ERROR'' \<and> log_message entry = ''db down'' \<and>
      console (logger_log rt0 logger_scenario_A ''error'' ''db down''
        (JObj [(''error'', JStr ''timeout'')]) []) = [ConsoleEntry entry] \<and>
      logBuffer (logger_log rt0 logger_scenario_A ''error'' ''db down''
        (JObj [(''error'', JStr ''timeout'')]) []) = [entry] \<and>
      in_flight (logger_log rt0 logger_scenario_A ''error'' ''db down''
        (JObj [(''error'', JStr ''timeout'')]) []) = []) \<and>
   (\<exists>entry. in_flight (logger_log rt0 logger_almost_full ''error'' ''db down''
        (JObj [(''error'', JStr ''timeout'')]) []) = [replicate 99 entry1 @ [entry]] \<and>
      logBuffer (logger_log rt0 logger_almost_full ''error'' ''db down''
        (JObj [(''error'', JStr ''timeout'')]) []) = [])"
proof
  have p: "enableFirestore logger_scenario_A" "has_db logger_scenario_A"
    by (simp_all add: logger_scenario_A_def new_logger_def)
  have s: "enableConsole logger_scenario_A" "console logger_scenario_A = []"
    "logBuffer logger_scenario_A = []" "in_flight logger_scenario_A = []"
    "length (logBuffer logger_scenario_A) + 1 < maxBufferSize logger_scenario_A"
    by (simp_all add: logger_scenario_A_def new_logger_def)
  have u: "toUpperCase ''error'' = ''ERROR''"
    by (simp add: toUpperCase_def)
  from log_buffer_and_flush [OF p, of "''error''" "''db down''" rt0
      "JObj [(''error'', JStr ''timeout'')]" "[]"] s u
  show "\<exists>entry. log_level entry = ''ERROR'' \<and> log_message entry = ''db down'' \<and>
      console (logger_log rt0 logger_scenario_A ''error'' ''db down''
        (JObj [(''error'', JStr ''timeout'')]) []) = [ConsoleEntry entry] \<and>
      logBuffer (logger_log rt0 logger_scenario_A ''error'' ''db down''
        (JObj [(''error'', JStr ''timeout'')]) []) = [entry] \<and>
      in_flight (logger_log rt0 logger_scenario_A ''error'' ''db down''
        (JObj [(''error'', JStr ''timeout'')]) []) = []"
    by auto
next
  have p: "enableFirestore logger_almost_full" "has_db logger_almost_full"
    by (simp_all add: logger_almost_full_def new_logger_def)
  have s: "logBuffer logger_almost_full = replicate 99 entry1"
    "in_flight logger_almost_full = []"
    "maxBufferSize logger_almost_full \<le> length (logBuffer logger_almost_full) + 1"
    by (simp_all add: logger_almost_full_def new_logger_def)
  from log_buffer_and_flush [OF p, of "''error''" "''db down''" rt0
      "JObj [(''error'', JStr ''timeout'')]" "[]"] s
  show "\<exists>entry. in_flight (logger_log rt0 logger_almost_full ''error'' ''db down''
        (JObj [(''error'', JStr ''timeout'')]) []) = [replicate 99 entry1 @ [entry]] \<and>
      logBuffer (logger_log rt0 logger_almost_full ''error'' ''db down''
        (JObj [(''error'', JStr ''timeout'')]) []) = []"
    by auto
qed

subsection \<open>Sanitizing\<close>

lemma nat_to_string_0: "nat_to_string 0 = ''0''"
  by (simp add: nat_to_string.simps digit_char_def)

lemma is_array_index_0: "is_array_index ''0''"
  by (simp add: is_array_index_def is_digit_def mathInt_def digit_value_def)

lemma not_sensitive_0: "\<not> is_sensitive ''0''"
  by (simp add: is_sensitive_def sensitiveFields_def toLowerCase_def)

lemma not_sensitive_items: "\<not> is_sensitive ''items''"
  by (simp add: is_sensitive_def sensitiveFields_def toLowerCase_def)

lemma not_array_index_items: "\<not> is_array_index ''items''"
  by (simp add: is_array_index_def is_digit_def)

text \<open>
  What \<open>sanitizeData\<close> does keep: a value that is no object is returned as it is, an
  object comes back with the same keys, and every value under a denylisted key is the
  marker.
\<close>

lemma sanitizeData_scalar: "\<not> typeof_object v \<Longrightarrow> sanitizeData v = v"
  by (simp add: sanitizeData_def)

lemma sanitizeObject_keys:
  "sanitizeObject (JObj kvs) = JObj r \<Longrightarrow>
     map fst r = filter (\<lambda>k. k \<noteq> ''__proto__'') (map fst (object_entries kvs))"
  by (auto simp: comp_def filter_map)

lemma sanitizeObject_redacts:
  "sanitizeObject (JObj kvs) = JObj r \<Longrightarrow> (k, v) \<in> set r \<Longrightarrow> is_sensitive k \<Longrightarrow>
     v = JStr ''[REDACTED]''"
  by auto

text \<open>
  Claim C9. \<open>sanitizeObject\<close> maps an array to an array, but \<open>sanitizeData\<close> runs it on the
  copy \<open>{ ...data }\<close>, and the copy of an array is a plain object keyed by the indices. The
  array \<open>['a']\<close>, which has no denylisted key anywhere, comes back as the object
  \<open>{'0': 'a'}\<close>, which is not the array; the same array one level down, in
  \<open>{items: ['a']}\<close>, comes back as it was.
\<close>

theorem sanitizeData_top_level_array:
  "sanitizeData (JArr [JStr ''a'']) = JObj [(''0'', JStr ''a'')] \<and>
   sanitizeData (JArr [JStr ''a'']) \<noteq> JArr [JStr ''a''] \<and>
   sanitizeData (JObj [(''items'', JArr [JStr ''a''])]) = JObj [(''items'', JArr [JStr ''a''])]"
  by (simp add: sanitizeData_def typeof_object_def own_properties_def object_entries_def
      nat_to_string_0 is_array_index_0 not_sensitive_0 not_sensitive_items
      not_array_index_items)

text \<open>
  The array is truthy and of type \<open>object\<close>, so it passes the early return of
  \<open>sanitizeData\<close> and reaches the copy.
\<close>

theorem sanitizeData_top_level_array_witness:
  "truthy (JArr [JStr ''a'']) \<and> typeof_object (JArr [JStr ''a'']) \<and>
   sanitizeData (JArr [JStr ''a'']) \<noteq> JArr [JStr ''a'']"
  using sanitizeData_top_level_array by (simp add: typeof_object_def)

subsection \<open>Statistics\<close>

lemma first_seen_snoc:
  "first_seen (xs @ [x]) = (if x \<in> set xs then first_seen xs else first_seen xs @ [x])"
  by (simp add: first_seen_def)

lemma set_first_seen: "set (first_seen xs) = set xs"
  by (simp add: first_seen_def)

lemma distinct_first_seen: "distinct (first_seen xs)"
  by (simp add: first_seen_def)

lemma map_of_tally:
  "map_of (map (\<lambda>m. (m, f m)) ks) x = (if x \<in> set ks then Some (f x) else None)"
  by (induction ks) auto

lemma obj_assign_new:
  "x \<notin> set ks \<Longrightarrow>
     obj_assign (map (\<lambda>m. (m, f m)) ks) x v = map (\<lambda>m. (m, f m)) ks @ [(x, v)]"
  by (induction ks) auto

lemma obj_assign_old:
  "x \<in> set ks \<Longrightarrow> distinct ks \<Longrightarrow>
     obj_assign (map (\<lambda>m. (m, f m)) ks) x v = map (\<lambda>m. (m, if m = x then v else f m)) ks"
proof (induction ks)
  case Nil
  then show ?case by simp
next
  case (Cons k ks)
  show ?case
  proof (cases "k = x")
    case True
    with Cons.prems have "x \<notin> set ks" by simp
    then have "map (\<lambda>m. (m, f m)) ks = map (\<lambda>m. (m, if m = x then v else f m)) ks"
      by (intro map_cong) auto
    with True show ?thesis by simp
  next
    case False
    with Cons show ?thesis by simp
  qed
qed

text \<open>
  When no key is the name of an inherited property, the object of counters built by the
  loop holds each key once, in the order of first occurrence, with the number of its
  occurrences.
\<close>

lemma count_list_snoc:
  "count_list (xs @ [x]) m = count_list xs m + (if m = x then 1 else 0)"
  by (induction xs) auto

lemma foldl_count_key:
  assumes "\<forall>x \<in> set xs. x \<notin> set inherited_keys"
  shows "foldl count_key [] xs = map (\<lambda>m. (m, Count (count_list xs m))) (first_seen xs)"
  using assms
proof (induction xs rule: rev_induct)
  case Nil
  show ?case by (simp add: first_seen_def)
next
  case (snoc x xs)
  let ?T = "map (\<lambda>m. (m, Count (count_list xs m))) (first_seen xs)"
  from snoc.prems have plain: "x \<notin> set inherited_keys"
    and rest: "\<forall>x \<in> set xs. x \<notin> set inherited_keys"
    by simp_all
  from plain have np: "x \<noteq> ''__proto__''"
    by (auto simp: inherited_keys_def)
  have step: "foldl count_key [] (xs @ [x]) = count_key ?T x"
    using snoc.IH [OF rest] by simp
  show ?case
  proof (cases "x \<in> set xs")
    case True
    then have "read_counter ?T x = Own (Count (count_list xs x))"
      by (simp add: read_counter_def map_of_tally set_first_seen)
    with np have a1: "count_key ?T x = obj_assign ?T x (Count (count_list xs x + 1))"
      by (simp add: count_key_def)
    have a2: "obj_assign ?T x (Count (count_list xs x + 1)) =
        map (\<lambda>m. (m, if m = x then Count (count_list xs x + 1) else Count (count_list xs m)))
          (first_seen xs)"
      using True by (intro obj_assign_old) (simp_all add: set_first_seen distinct_first_seen)
    have c: "map (\<lambda>m. (m, if m = x then Count (count_list xs x + 1)
                          else Count (count_list xs m))) (first_seen xs) =
        map (\<lambda>m. (m, Count (count_list (xs @ [x]) m))) (first_seen xs)"
      by (rule map_cong) (simp_all add: count_list_snoc)
    have "first_seen (xs @ [x]) = first_seen xs"
      using True by (simp only: first_seen_snoc if_True)
    then have b: "map (\<lambda>m. (m, Count (count_list (xs @ [x]) m))) (first_seen (xs @ [x])) =
        map (\<lambda>m. (m, Count (count_list (xs @ [x]) m))) (first_seen xs)"
      by simp
    show ?thesis unfolding step a1 a2 b c ..
  next
    case False
    then have new: "x \<notin> set (first_seen xs)"
      by (simp add: set_first_seen)
    have "read_counter ?T x = Missing"
      using False plain by (simp add: read_counter_def map_of_tally set_first_seen)
    with np have a1: "count_key ?T x = obj_assign ?T x (Count 1)"
      by (simp add: count_key_def)
    have a2: "obj_assign ?T x (Count 1) = ?T @ [(x, Count 1)]"
      using new by (rule obj_assign_new)
    have old: "map (\<lambda>m. (m, Count (count_list (xs @ [x]) m))) (first_seen xs) = ?T"
    proof (rule map_cong)
      fix m assume "m \<in> set (first_seen xs)"
      with new have "m \<noteq> x" by auto
      then show "(m, Count (count_list (xs @ [x]) m)) = (m, Count (count_list xs m))"
        by (simp add: count_list_snoc)
    qed simp
    have one: "count_list (xs @ [x]) x = 1"
      using False by (simp add: count_list_snoc count_list_0_iff)
    have fs: "first_seen (xs @ [x]) = first_seen xs @ [x]"
      using False by (simp only: first_seen_snoc if_False)
    have "map (\<lambda>m. (m, Count (count_list (xs @ [x]) m))) (first_seen (xs @ [x])) =
        map (\<lambda>m. (m, Count (count_list (xs @ [x]) m))) (first_seen xs) @
          [(x, Count (count_list (xs @ [x]) x))]"
      unfolding fs by (simp only: map_append list.map)
    then have b: "map (\<lambda>m. (m, Count (count_list (xs @ [x]) m))) (first_seen (xs @ [x])) =
        ?T @ [(x, Count 1)]"
      unfolding old one .
    show ?thesis unfolding step a1 a2 b ..
  qed
qed

lemma numeric_entries_counts:
  "numeric_entries (map (\<lambda>m. (m, Count (f m))) ks) = Some (map (\<lambda>m. (m, f m)) ks)"
  by (induction ks) simp_all

text \<open>
  The counter of \<open>ERROR\<close> is a number whatever other levels the entries have: its value is
  the number of levels that are \<open>ERROR\<close>.
\<close>

lemma map_of_obj_assign:
  "map_of (obj_assign counts k v) k' = (if k' = k then Some v else map_of counts k')"
  by (induction counts k v rule: obj_assign.induct) auto

lemma count_key_ERROR:
  assumes "map_of acc ''ERROR'' = (if n = 0 then None else Some (Count n))"
  shows "map_of (count_key acc x) ''ERROR'' =
     (if n + (if x = ''ERROR'' then 1 else 0) = 0 then None
      else Some (Count (n + (if x = ''ERROR'' then 1 else 0))))"
proof (cases "x = ''ERROR''")
  case True
  have "read_counter acc ''ERROR'' = (if n = 0 then Missing else Own (Count n))"
    using assms by (simp add: read_counter_def inherited_keys_def)
  then have "or_zero_plus_one (read_counter acc ''ERROR'') = Count (n + 1)"
    by simp
  with True show ?thesis
    by (simp add: count_key_def map_of_obj_assign)
next
  case False
  with assms show ?thesis
    by (simp add: count_key_def map_of_obj_assign Let_def)
qed

lemma foldl_count_key_ERROR:
  assumes "map_of acc ''ERROR'' = (if n = 0 then None else Some (Count n))"
  shows "map_of (foldl count_key acc xs) ''ERROR'' =
     (if n + count_list xs ''ERROR'' = 0 then None
      else Some (Count (n + count_list xs ''ERROR'')))"
  using assms
proof (induction xs arbitrary: acc n)
  case Nil
  then show ?case by simp
next
  case (Cons x xs)
  from count_key_ERROR [OF Cons.prems, of x]
  have "map_of (foldl count_key (count_key acc x) xs) ''ERROR'' =
     (if (n + (if x = ''ERROR'' then 1 else 0)) + count_list xs ''ERROR'' = 0 then None
      else Some (Count ((n + (if x = ''ERROR'' then 1 else 0)) + count_list xs ''ERROR'')))"
    by (rule Cons.IH)
  then show ?case by (simp add: add.assoc)
qed

lemma error_counter:
  "number_or_zero (read_counter (foldl count_key [] xs) ''ERROR'') =
     Some (count_list xs ''ERROR'')"
proof -
  have "map_of (foldl count_key [] xs) ''ERROR'' =
     (if 0 + count_list xs ''ERROR'' = 0 then None
      else Some (Count (0 + count_list xs ''ERROR'')))"
    by (rule foldl_count_key_ERROR) simp
  then show ?thesis
    by (simp add: read_counter_def inherited_keys_def)
qed

lemma foldl_error_messages:
  "foldl (\<lambda>counts l. if log_level l = ''ERROR''
                      then count_key counts (log_message l) else counts) acc logs =
   foldl count_key acc (error_messages logs)"
  by (induction logs arbitrary: acc) (simp_all add: error_messages_def)

lemma foldl_levels:
  "foldl (\<lambda>counts l. count_key counts (log_level l)) acc logs =
   foldl count_key acc (map log_level logs)"
  by (induction logs arbitrary: acc) simp_all

lemma count_list_levels:
  "count_list (map log_level logs) lv = length (filter (\<lambda>l. log_level l = lv) logs)"
  by (induction logs) auto

lemma object_entries_no_index:
  assumes "\<forall>kv \<in> set kvs. \<not> is_array_index (fst kv)"
  shows "object_entries kvs = kvs"
proof -
  from assms have "filter (\<lambda>kv. is_array_index (fst kv)) kvs = []"
    by (simp add: filter_empty_conv)
  moreover from assms have "filter (\<lambda>kv. \<not> is_array_index (fst kv)) kvs = kvs"
    by (simp add: filter_id_conv)
  ultimately show ?thesis by (simp add: object_entries_def)
qed

text \<open>
  The order the specification's wording fixes: the counts descend, and the messages of one
  count stand in the order of their first occurrence.
\<close>

lemma topErrors_spec_order:
  "\<exists>S. topErrors_spec logs = take 10 S \<and>
     set (map fst S) = set (error_messages logs) \<and> distinct (map fst S) \<and>
     (\<forall>c. map fst (filter (\<lambda>kv. snd kv = c) S) =
        filter (\<lambda>m. count_list (error_messages logs) m = c) (first_seen (error_messages logs))) \<and>
     sorted (map (\<lambda>kv. - int (snd kv)) S)"
proof -
  let ?msgs = "error_messages logs"
  let ?T = "map (\<lambda>m. (m, count_list ?msgs m)) (first_seen ?msgs)"
  let ?S = "sort_key (\<lambda>kv. - int (snd kv)) ?T"
  have ties: "map fst (filter (\<lambda>kv. snd kv = c) ?S) =
      filter (\<lambda>m. count_list ?msgs m = c) (first_seen ?msgs)" for c
  proof -
    have "filter (\<lambda>kv. snd kv = c) ?S = filter (\<lambda>kv. - int (snd kv) = - int c) ?S"
      by (intro filter_cong) auto
    also have "\<dots> = filter (\<lambda>kv. - int (snd kv) = - int c) ?T"
      by (rule sort_key_stable)
    also have "\<dots> = filter (\<lambda>kv. snd kv = c) ?T"
      by (intro filter_cong) auto
    finally show ?thesis by (simp add: filter_map comp_def)
  qed
  have keys: "map fst ?T = first_seen ?msgs"
    by (simp add: comp_def)
  have "set (map fst ?S) = set ?msgs"
    by (simp add: image_image set_first_seen)
  moreover have "distinct (map fst ?S)"
  proof -
    have "distinct (map fst ?T)"
      unfolding keys by (rule distinct_first_seen)
    then have "distinct ?T \<and> inj_on fst (set ?T)"
      by (simp only: distinct_map)
    then have "distinct ?S \<and> inj_on fst (set ?S)"
      by simp
    then show ?thesis by (simp only: distinct_map)
  qed
  moreover have "sorted (map (\<lambda>kv. - int (snd kv)) ?S)"
    by (rule sorted_sort_key)
  ultimately show ?thesis
    using ties unfolding topErrors_spec_def by blast
qed

text \<open>
  A message that names an inherited property is not counted as the others are: the counter
  of \<open>__proto__\<close> is never created, and the counter of \<open>constructor\<close> is a string.
\<close>

lemma getLogStatistics_inherited_messages:
  "stats_topErrors (getLogStatistics logs_proto_message) = Some [(''Y'', 1)] \<and>
   stats_topErrors (getLogStatistics logs_constructor_message) = None"
  by (simp add: getLogStatistics_def Let_def logs_proto_message_def
      logs_constructor_message_def error_entry_def count_key_def read_counter_def
      inherited_keys_def object_entries_def is_array_index_def is_digit_def)

text \<open>
  The claim C8 as the specification states it fails when an error message is an array
  index: of the two messages \<open>b\<close> and \<open>7\<close>, each seen once and \<open>b\<close> first, the object of
  counters enumerates \<open>7\<close> first, and the stable sort leaves it there.
\<close>

theorem topErrors_index_message_counterexample:
  "first_seen (error_messages logs_index_message) = [''b'', ''7''] \<and>
   topErrors_spec logs_index_message = [(''b'', 1), (''7'', 1)] \<and>
   stats_topErrors (getLogStatistics logs_index_message) = Some [(''7'', 1), (''b'', 1)]"
proof -
  have i7: "is_array_index ''7''"
    by (simp add: is_array_index_def is_digit_def mathInt_def digit_value_def)
  have ib: "\<not> is_array_index ''b''"
    by (simp add: is_array_index_def is_digit_def)
  have m: "error_messages logs_index_message = [''b'', ''7'']"
    by (simp add: error_messages_def logs_index_message_def error_entry_def)
  have f: "first_seen [''b'', ''7''] = [''b'', ''7'']"
    by (simp add: first_seen_def)
  have s: "topErrors_spec logs_index_message = [(''b'', 1), (''7'', 1)]"
    by (simp add: topErrors_spec_def m f)
  have c: "foldl (\<lambda>counts l. if log_level l = ''ERROR''
                            then count_key counts (log_message l) else counts)
             [] logs_index_message = [(''b'', Count 1), (''7'', Count 1)]"
    by (simp add: logs_index_message_def error_entry_def count_key_def read_counter_def
        inherited_keys_def)
  have e: "object_entries [(''b'', u), (''7'', v)] = [(''7'', v), (''b'', u)]" for u v :: nat
    by (simp add: object_entries_def i7 ib)
  have t: "stats_topErrors (getLogStatistics logs_index_message) =
      Some [(''7'', 1), (''b'', 1)]"
    by (simp add: getLogStatistics_def Let_def c e)
  from m f s t show ?thesis by simp
qed

text \<open>
  Claim C8, amended. When no \<open>ERROR\<close> message is the name of a property that objects
  inherit (\<open>constructor\<close>, \<open>toString\<close>, \<open>__proto__\<close>, ...), \<open>topErrors\<close> holds at most ten
  messages of \<open>ERROR\<close> entries with their counts, by descending count, equal counts left in
  the order in which the object of counters enumerates its keys (array indices first,
  ascending, then the other messages by first occurrence). When moreover no \<open>ERROR\<close>
  message is an array index, this is the list the specification words, with equal counts
  in the order of first occurrence. For all entries, the error rate is the number of
  \<open>ERROR\<close> entries divided by the number of entries, and 0 when there is no entry.
\<close>

theorem getLogStatistics_topErrors:
  "((\<forall>m \<in> set (error_messages logs). m \<notin> set inherited_keys) \<longrightarrow>
      stats_topErrors (getLogStatistics logs) =
        Some (take 10 (sort_key (\<lambda>kv. - int (snd kv))
          (object_entries (map (\<lambda>m. (m, count_list (error_messages logs) m))
            (first_seen (error_messages logs))))))) \<and>
   ((\<forall>m \<in> set (error_messages logs). m \<notin> set inherited_keys \<and> \<not> is_array_index m) \<longrightarrow>
      stats_topErrors (getLogStatistics logs) = Some (topErrors_spec logs)) \<and>
   length (topErrors_spec logs) \<le> 10 \<and>
   stats_errorRate (getLogStatistics logs) =
     Some (if logs = [] then 0
           else of_nat (length (filter (\<lambda>l. log_level l = ''ERROR'') logs)) /
                of_nat (length logs))"
proof (intro conjI impI)
  let ?msgs = "error_messages logs"
  let ?T = "map (\<lambda>m. (m, count_list ?msgs m)) (first_seen ?msgs)"
  have general: "stats_topErrors (getLogStatistics logs) =
      Some (take 10 (sort_key (\<lambda>kv. - int (snd kv)) (object_entries ?T)))"
    if "\<forall>m \<in> set ?msgs. m \<notin> set inherited_keys"
    using foldl_count_key [OF that]
    by (simp add: getLogStatistics_def Let_def foldl_error_messages numeric_entries_counts)
  show "stats_topErrors (getLogStatistics logs) =
      Some (take 10 (sort_key (\<lambda>kv. - int (snd kv)) (object_entries ?T)))"
    if "\<forall>m \<in> set ?msgs. m \<notin> set inherited_keys"
    using that by (rule general)
  show "stats_topErrors (getLogStatistics logs) = Some (topErrors_spec logs)"
    if h: "\<forall>m \<in> set ?msgs. m \<notin> set inherited_keys \<and> \<not> is_array_index m"
  proof -
    from h have "\<forall>kv \<in> set ?T. \<not> is_array_index (fst kv)"
      by (auto simp: set_first_seen)
    then have "object_entries ?T = ?T"
      by (rule object_entries_no_index)
    moreover from h have "\<forall>m \<in> set ?msgs. m \<notin> set inherited_keys"
      by blast
    ultimately show ?thesis
      using general by (simp add: topErrors_spec_def)
  qed
  show "length (topErrors_spec logs) \<le> 10"
    by (simp add: topErrors_spec_def)
  have "number_or_zero (read_counter (foldl count_key [] (map log_level logs)) ''ERROR'') =
      Some (length (filter (\<lambda>l. log_level l = ''ERROR'') logs))"
    by (simp only: error_counter count_list_levels)
  then show "stats_errorRate (getLogStatistics logs) =
       Some (if logs = [] then 0
             else of_nat (length (filter (\<lambda>l. log_level l = ''ERROR'') logs)) /
                  of_nat (length logs))"
    by (simp add: getLogStatistics_def Let_def foldl_levels)
qed

theorem getLogStatistics_topErrors_witness:
  "stats_topErrors (getLogStatistics logs_scenario_D) = Some [(''X'', 3), (''Y'', 1)] \<and>
   stats_errorRate (getLogStatistics logs_scenario_D) = Some 1 \<and>
   stats_topErrors (getLogStatistics logs_mixed) = Some [(''7'', 1), (''b'', 1)] \<and>
   stats_errorRate (getLogStatistics logs_mixed) = Some (1 / 2)"
proof -
  have m: "error_messages logs_scenario_D = [''X'', ''Y'', ''X'', ''X'']"
    by (simp add: error_messages_def logs_scenario_D_def error_entry_def)
  have h: "\<forall>m \<in> set (error_messages logs_scenario_D).
      m \<notin> set inherited_keys \<and> \<not> is_array_index m"
    by (simp add: m is_array_index_def is_digit_def inherited_keys_def)
  have f: "first_seen [''X'', ''Y'', ''X'', ''X''] = [''X'', ''Y'']"
    by (simp add: first_seen_def)
  have s: "topErrors_spec logs_scenario_D = [(''X'', 3), (''Y'', 1)]"
    by (simp add: topErrors_spec_def m f)
  have n: "logs_scenario_D \<noteq> []"
    "length (filter (\<lambda>l. log_level l = ''ERROR'') logs_scenario_D) = 4"
    "length logs_scenario_D = 4"
    by (simp_all add: logs_scenario_D_def error_entry_def)
  have top: "stats_topErrors (getLogStatistics logs_scenario_D) =
      Some (topErrors_spec logs_scenario_D)"
    by (rule getLogStatistics_topErrors [of logs_scenario_D,
          THEN conjunct2, THEN conjunct1, THEN mp, OF h])
  have rate: "stats_errorRate (getLogStatistics logs_scenario_D) =
      Some (if logs_scenario_D = [] then 0
       else of_nat (length (filter (\<lambda>l. log_level l = ''ERROR'') logs_scenario_D)) /
            of_nat (length logs_scenario_D))"
    by (rule getLogStatistics_topErrors [of logs_scenario_D,
          THEN conjunct2, THEN conjunct2, THEN conjunct2])
  from top s rate n have r1: "stats_topErrors (getLogStatistics logs_scenario_D) =
      Some [(''X'', 3), (''Y'', 1)]"
    and r2: "stats_errorRate (getLogStatistics logs_scenario_D) = Some 1"
    by simp_all
  have m': "error_messages logs_mixed = [''b'', ''7'']"
    by (simp add: error_messages_def logs_mixed_def error_entry_def entry1_def entry2_def)
  have h': "\<forall>m \<in> set (error_messages logs_mixed). m \<notin> set inherited_keys"
    by (simp add: m' inherited_keys_def)
  have f': "first_seen [''b'', ''7''] = [''b'', ''7'']"
    by (simp add: first_seen_def)
  have i7: "is_array_index ''7''"
    by (simp add: is_array_index_def is_digit_def mathInt_def digit_value_def)
  have ib: "\<not> is_array_index ''b''"
    by (simp add: is_array_index_def is_digit_def)
  have e': "object_entries [(''b'', u), (''7'', v)] = [(''7'', v), (''b'', u)]" for u v :: nat
    by (simp add: object_entries_def i7 ib)
  have "stats_topErrors (getLogStatistics logs_mixed) =
      Some (take 10 (sort_key (\<lambda>kv. - int (snd kv))
        (object_entries (map (\<lambda>m. (m, count_list (error_messages logs_mixed) m))
          (first_seen (error_messages logs_mixed))))))"
    by (rule getLogStatistics_topErrors [of logs_mixed, THEN conjunct1, THEN mp, OF h'])
  then have r3: "stats_topErrors (getLogStatistics logs_mixed) = Some [(''7'', 1), (''b'', 1)]"
    by (simp add: m' f' e')
  have n': "logs_mixed \<noteq> []"
    "length (filter (\<lambda>l. log_level l = ''ERROR'') logs_mixed) = 2"
    "length logs_mixed = 4"
    by (simp_all add: logs_mixed_def error_entry_def entry1_def entry2_def)
  have "stats_errorRate (getLogStatistics logs_mixed) =
      Some (if logs_mixed = [] then 0
       else of_nat (length (filter (\<lambda>l. log_level l = ''ERROR'') logs_mixed)) /
            of_nat (length logs_mixed))"
    by (rule getLogStatistics_topErrors [of logs_mixed,
          THEN conjunct2, THEN conjunct2, THEN conjunct2])
  with n' have r4: "stats_errorRate (getLogStatistics logs_mixed) = Some (1 / 2)"
    by simp
  from r1 r2 r3 r4 show ?thesis by (intro conjI)
qed

end
